theory Spec2Isabelle
  imports Complex_Main "HOL-Library.Log_Nat"
begin

section \<open>JavaScript values used by the storage calculation\<close>

text \<open>
  The calculation mixes two JavaScript numeric types.  A \<^verbatim>\<open>bigint\<close> is an unbounded
  integer and is modelled by \<^typ>\<open>int\<close>.  A \<^verbatim>\<open>number\<close> is an IEEE 754 binary64 value:
  a NaN, one of the two infinities, the negative zero, or a finite rational that is
  representable with a 53 bit significand (\<open>Fin 0\<close> is the positive zero).
\<close>

datatype jsnum = NaN | PosInf | NegInf | NegZero | Fin rat

datatype error = RangeError | FetchError

definition signed_zero :: "bool \<Rightarrow> jsnum" where
  "signed_zero neg = (if neg then NegZero else Fin 0)"

definition signed_inf :: "bool \<Rightarrow> jsnum" where
  "signed_inf neg = (if neg then NegInf else PosInf)"

text \<open>Rounding a rational to the nearest integer, ties to the even neighbour.\<close>

definition round_half_even :: "rat \<Rightarrow> int" where
  "round_half_even x =
     (let f = \<lfloor>x\<rfloor>; d = x - of_int f
      in if d < 1 / 2 then f
         else if 1 / 2 < d then f + 1
         else if even f then f else f + 1)"

text \<open>The binary exponent \<open>\<lfloor>log\<^sub>2 q\<rfloor>\<close> of a positive rational, from the bit lengths of
  its numerator and denominator.\<close>

definition ilog2 :: "rat \<Rightarrow> int" where
  "ilog2 q =
     (let k = bitlen (fst (quotient_of q)) - bitlen (snd (quotient_of q))
      in if 2 powi k \<le> q then k else k - 1)"

text \<open>
  Rounding a positive rational to 53 significant bits (round to nearest, ties to even).
  The unit in the last place is \<open>2 powi ulp_exp a\<close>; its exponent never goes below
  \<open>-1074\<close>, the spacing of the subnormal numbers.
\<close>

definition ulp_exp :: "rat \<Rightarrow> int" where
  "ulp_exp a = max (ilog2 a - 52) (- 1074)"

definition round_mag :: "rat \<Rightarrow> rat" where
  "round_mag a = of_int (round_half_even (a / 2 powi ulp_exp a)) * 2 powi ulp_exp a"

text \<open>
  The binary64 value nearest to a rational: a magnitude that rounds to \<open>2^1024\<close> or
  beyond is an infinity, and a non-zero rational that rounds to zero keeps its sign.
\<close>

definition double_of_rat :: "rat \<Rightarrow> jsnum" where
  "double_of_rat q =
     (if q = 0 then Fin 0
      else
        let v = round_mag \<bar>q\<bar>
        in if v = 0 then signed_zero (q < 0)
           else if 2 ^ 1024 \<le> v then signed_inf (q < 0)
           else Fin (sgn q * v))"

text \<open>\<^verbatim>\<open>Number(b)\<close> for a bigint \<open>b\<close>.\<close>

definition Number :: "int \<Rightarrow> jsnum" where
  "Number b = double_of_rat (of_int b)"

text \<open>\<^verbatim>\<open>BigInt(x)\<close> for a number \<open>x\<close>: a RangeError unless \<open>x\<close> is an integer.\<close>

fun BigInt :: "jsnum \<Rightarrow> error + int" where
  "BigInt NaN = Inl RangeError"
| "BigInt PosInf = Inl RangeError"
| "BigInt NegInf = Inl RangeError"
| "BigInt NegZero = Inr 0"
| "BigInt (Fin q) = (if of_int \<lfloor>q\<rfloor> = q then Inr \<lfloor>q\<rfloor> else Inl RangeError)"

fun is_inf :: "jsnum \<Rightarrow> bool" where
  "is_inf PosInf = True"
| "is_inf NegInf = True"
| "is_inf _ = False"

fun is_zero :: "jsnum \<Rightarrow> bool" where
  "is_zero NegZero = True"
| "is_zero (Fin q) = (q = 0)"
| "is_zero _ = False"

text \<open>The sign bit of a number that is not a NaN.\<close>

fun negative :: "jsnum \<Rightarrow> bool" where
  "negative NegInf = True"
| "negative NegZero = True"
| "negative (Fin q) = (q < 0)"
| "negative _ = False"

text \<open>The mathematical value of a finite number.\<close>

fun val :: "jsnum \<Rightarrow> rat" where
  "val (Fin q) = q"
| "val _ = 0"

text \<open>The operator \<^verbatim>\<open>/\<close> on numbers.  It never raises.\<close>

definition js_div :: "jsnum \<Rightarrow> jsnum \<Rightarrow> jsnum" where
  "js_div x y =
     (if x = NaN \<or> y = NaN then NaN
      else if is_inf x then
        (if is_inf y then NaN else signed_inf (negative x \<noteq> negative y))
      else if is_inf y then signed_zero (negative x \<noteq> negative y)
      else if is_zero y then
        (if is_zero x then NaN else signed_inf (negative x \<noteq> negative y))
      else if is_zero x then signed_zero (negative x \<noteq> negative y)
      else double_of_rat (val x / val y))"

text \<open>The operator \<^verbatim>\<open>/\<close> on bigints: the quotient is truncated towards zero, a zero
  divisor raises a RangeError.\<close>

definition bigint_div :: "int \<Rightarrow> int \<Rightarrow> error + int" where
  "bigint_div a b =
     (if b = 0 then Inl RangeError else Inr (sgn a * sgn b * (\<bar>a\<bar> div \<bar>b\<bar>)))"

text \<open>\<^verbatim>\<open>x >= b\<close> for a number \<open>x\<close> and a bigint \<open>b\<close>: the mathematical values are
  compared exactly, and a NaN compares false.\<close>

fun ge_bigint :: "jsnum \<Rightarrow> int \<Rightarrow> bool" where
  "ge_bigint NaN b = False"
| "ge_bigint PosInf b = True"
| "ge_bigint NegInf b = False"
| "ge_bigint NegZero b = (b \<le> 0)"
| "ge_bigint (Fin q) b = (of_int b \<le> q)"

text \<open>\<^verbatim>\<open>x <= y\<close> on numbers: false when either side is a NaN; the zeros are equal.\<close>

fun js_le :: "jsnum \<Rightarrow> jsnum \<Rightarrow> bool" where
  "js_le NaN y = False"
| "js_le x NaN = False"
| "js_le NegInf y = True"
| "js_le x PosInf = True"
| "js_le PosInf y = False"
| "js_le x NegInf = False"
| "js_le x y = (val x \<le> val y)"

section \<open>Constants and configuration\<close>

text \<open>
  \<^verbatim>\<open>TIME_CONSTANTS\<close> and \<^verbatim>\<open>SIZE_CONSTANTS\<close> come from the storage SDK and \<^verbatim>\<open>config\<close> from
  the application's configuration module; the calculation reads them, so they are
  parameters of the model.  All SDK constants are bigints.
\<close>

record sdk_constants =
  EPOCHS_PER_DAY :: int
  EPOCHS_PER_MONTH :: int
  GiB :: int
  TiB :: int

text \<open>The values the SDK ships.\<close>

definition synapse_sdk :: sdk_constants where
  "synapse_sdk =
     \<lparr>EPOCHS_PER_DAY = 2880, EPOCHS_PER_MONTH = 86400, GiB = 2 ^ 30, TiB = 2 ^ 40\<rparr>"

text \<open>Of the configuration, the body of the calculation reads the CDN flag only; the
  other entries serve as default values of its optional parameters.\<close>

record config =
  withCDN :: bool

definition PRICE_PER_TB_PER_MONTH :: int where
  "PRICE_PER_TB_PER_MONTH = 2 * 10 ^ 18"

definition PRICE_PER_TB_PER_MONTH_CDN :: int where
  "PRICE_PER_TB_PER_MONTH_CDN = 3 * 10 ^ 18"

section \<open>The balance snapshot and the calculation result\<close>

text \<open>
  All amounts are bigints.  \<open>costs_perEpoch\<close> is the entry \<^verbatim>\<open>costs.perEpoch\<close> of the
  snapshot.  The result passes the snapshot's \<^verbatim>\<open>currentLockupAllowance\<close> on under the same
  name; here that field of the result is called \<open>resultLockupAllowance\<close>, to keep it
  apart from the field of the snapshot.
\<close>

record PandoraBalanceData =
  currentRateAllowance :: int
  currentRateUsed :: int
  currentLockupAllowance :: int
  currentLockupUsed :: int
  rateAllowanceNeeded :: int
  lockupAllowanceNeeded :: int
  depositAmountNeeded :: int
  costs_perEpoch :: int

record StorageCalculationResult =
  rateNeeded :: int
  rateUsed :: int
  currentStorageBytes :: int
  currentStorageGB :: jsnum
  totalLockupNeeded :: int
  depositNeeded :: int
  persistenceDaysLeft :: jsnum
  persistenceDaysLeftAtCurrentRate :: jsnum
  isRateSufficient :: bool
  isLockupSufficient :: bool
  isSufficient :: bool
  currentRateAllowanceGB :: jsnum
  resultLockupAllowance :: int

section \<open>calculateStorageMetrics.ts\<close>

definition getPricePerTBPerMonth :: "config \<Rightarrow> int" where
  "getPricePerTBPerMonth cfg =
     (if withCDN cfg then PRICE_PER_TB_PER_MONTH_CDN else PRICE_PER_TB_PER_MONTH)"

definition calculateRateAllowanceGB :: "sdk_constants \<Rightarrow> config \<Rightarrow> int \<Rightarrow> error + jsnum" where
  "calculateRateAllowanceGB k cfg rateAllowance =
     (let monthlyRate = rateAllowance * EPOCHS_PER_MONTH k
      in (case bigint_div (monthlyRate * TiB k) (getPricePerTBPerMonth cfg) of
            Inl e \<Rightarrow> Inl e
          | Inr bytesThatCanBeStored \<Rightarrow>
              Inr (js_div (Number bytesThatCanBeStored) (Number (GiB k)))))"

text \<open>
  The estimate starts at zero bytes and zero GB.  Inside the guard, a fault of
  \<^verbatim>\<open>BigInt(storageCapacity)\<close> or of the bigint division is caught: both happen before the
  first assignment, so the initial values stay.
\<close>

definition calculateCurrentStorageUsage ::
  "sdk_constants \<Rightarrow> PandoraBalanceData \<Rightarrow> jsnum \<Rightarrow> int \<times> jsnum" where
  "calculateCurrentStorageUsage k pandoraBalance storageCapacity =
     (if currentRateUsed pandoraBalance > 0 \<and> rateAllowanceNeeded pandoraBalance > 0 then
        (case BigInt storageCapacity of
           Inl e \<Rightarrow> (0, Fin 0)
         | Inr capacity \<Rightarrow>
             (case bigint_div (currentRateUsed pandoraBalance * capacity)
                     (rateAllowanceNeeded pandoraBalance) of
                Inl e \<Rightarrow> (0, Fin 0)
              | Inr bytes \<Rightarrow> (bytes, js_div (Number bytes) (Number (GiB k)))))
      else (0, Fin 0))"

text \<open>
  The entry point.  \<open>checkAllowanceForStorage\<close> stands for the query to the payment
  service: it receives the capacity, the CDN flag and the persistence period and either
  fails or yields a snapshot; a failure is passed on to the caller.  The three optional
  parameters (the persistence period, the capacity in bytes as a number, and the
  threshold in days as a bigint) are taken as given by the caller; their default values
  come from the configuration and are not part of the model.
\<close>

definition calculateStorageMetrics ::
  "sdk_constants \<Rightarrow> config \<Rightarrow> (jsnum \<Rightarrow> bool \<Rightarrow> jsnum \<Rightarrow> error + PandoraBalanceData)
     \<Rightarrow> jsnum \<Rightarrow> jsnum \<Rightarrow> int \<Rightarrow> error + StorageCalculationResult" where
  "calculateStorageMetrics k cfg checkAllowanceForStorage persistencePeriodDays
       storageCapacity minDaysThreshold =
     (case checkAllowanceForStorage storageCapacity (withCDN cfg) persistencePeriodDays of
        Inl e \<Rightarrow> Inl e
      | Inr pandoraBalance \<Rightarrow>
         (let rateNeeded = costs_perEpoch pandoraBalance;
              lockupPerDay = EPOCHS_PER_DAY k * rateNeeded;
              lockupPerDayAtCurrentRate = EPOCHS_PER_DAY k * currentRateUsed pandoraBalance;
              currentLockupRemaining =
                currentLockupAllowance pandoraBalance - currentLockupUsed pandoraBalance;
              persistenceDaysLeft =
                js_div (Number currentLockupRemaining) (Number lockupPerDay);
              persistenceDaysLeftAtCurrentRate =
                (if lockupPerDayAtCurrentRate > 0
                 then js_div (Number currentLockupRemaining) (Number lockupPerDayAtCurrentRate)
                 else if currentLockupRemaining > 0 then PosInf else Fin 0);
              usage = calculateCurrentStorageUsage k pandoraBalance storageCapacity;
              isRateSufficient = (currentRateAllowance pandoraBalance \<ge> rateNeeded);
              isLockupSufficient = ge_bigint persistenceDaysLeft minDaysThreshold;
              isSufficient = (isRateSufficient \<and> isLockupSufficient)
          in (case calculateRateAllowanceGB k cfg (currentRateAllowance pandoraBalance) of
                Inl e \<Rightarrow> Inl e
              | Inr allowanceGB \<Rightarrow>
                  (let depositNeeded = depositAmountNeeded pandoraBalance
                   in Inr \<lparr>rateNeeded = rateNeeded,
                           rateUsed = currentRateUsed pandoraBalance,
                           currentStorageBytes = fst usage,
                           currentStorageGB = snd usage,
                           totalLockupNeeded = lockupAllowanceNeeded pandoraBalance,
                           depositNeeded = depositNeeded,
                           persistenceDaysLeft = persistenceDaysLeft,
                           persistenceDaysLeftAtCurrentRate = persistenceDaysLeftAtCurrentRate,
                           isRateSufficient = isRateSufficient,
                           isLockupSufficient = isLockupSufficient,
                           isSufficient = isSufficient,
                           currentRateAllowanceGB = allowanceGB,
                           resultLockupAllowance = currentLockupAllowance pandoraBalance\<rparr>))))"

section \<open>The payment actions of the storage manager\<close>

text \<open>
  The presentation layer receives the calculation result together with the wallet's
  token balances, and submits payments through a callback that takes these three
  parameters.
\<close>

record Balances = StorageCalculationResult +
  filBalance :: int
  usdfcBalance :: int

record PaymentParams =
  lockupAllowance :: int
  epochRateAllowance :: int
  depositAmount :: int

text \<open>A rendered button: the payment its click handler submits (followed by a refetch of
  the balances), and whether it is disabled.\<close>

record PaymentButton =
  onClick :: PaymentParams
  disabled :: bool

text \<open>The props of the action components are optional bigints; \<^verbatim>\<open>!x\<close> holds for an
  absent value and for \<^verbatim>\<open>0n\<close>.\<close>

definition falsy :: "int option \<Rightarrow> bool" where
  "falsy x = (case x of None \<Rightarrow> True | Some b \<Rightarrow> b = 0)"

text \<open>The arguments are the props \<^verbatim>\<open>totalLockupNeeded\<close>, \<^verbatim>\<open>depositNeeded\<close>,
  \<^verbatim>\<open>rateNeeded\<close> and \<^verbatim>\<open>isProcessingPayment\<close>; the result \<open>None\<close> is the component
  rendering \<^verbatim>\<open>null\<close>.\<close>

definition LockupIncreaseAction ::
  "int option \<Rightarrow> int option \<Rightarrow> int option \<Rightarrow> bool \<Rightarrow> PaymentButton option" where
  "LockupIncreaseAction lockupProp depositProp rateProp isProcessingPayment =
     (if falsy lockupProp \<or> falsy depositProp \<or> falsy rateProp then None
      else Some \<lparr>onClick = \<lparr>lockupAllowance = the lockupProp,
                               epochRateAllowance = the rateProp,
                               depositAmount = the depositProp\<rparr>,
                  disabled = isProcessingPayment\<rparr>)"

text \<open>The arguments are the props \<^verbatim>\<open>currentLockupAllowance\<close>, \<^verbatim>\<open>rateNeeded\<close> and
  \<^verbatim>\<open>isProcessingPayment\<close>.\<close>

definition RateIncreaseAction ::
  "int option \<Rightarrow> int option \<Rightarrow> bool \<Rightarrow> PaymentButton option" where
  "RateIncreaseAction lockupProp rateProp isProcessingPayment =
     (if falsy lockupProp \<or> falsy rateProp then None
      else Some \<lparr>onClick = \<lparr>lockupAllowance = the lockupProp,
                               epochRateAllowance = the rateProp,
                               depositAmount = 0\<rparr>,
                  disabled = isProcessingPayment\<rparr>)"

text \<open>
  What \<^verbatim>\<open>ActionSection\<close> renders: nothing, the card reporting a sufficient balance, the
  cards asking for FIL and for USDFC tokens (each shown or not), or the list of
  remediation children.  A child component is in the list when its guard holds, with
  what it renders itself.
\<close>

datatype ActionChild =
    LockupIncrease "PaymentButton option"
  | RateIncrease "PaymentButton option"
  | DepositAndIncrease PaymentButton

datatype ActionView =
    Hidden
  | SufficientCard
  | TokensRequired bool bool
  | Remediation "ActionChild list"

definition ActionSection :: "Balances option \<Rightarrow> bool \<Rightarrow> bool \<Rightarrow> ActionView" where
  "ActionSection balances isLoading isProcessingPayment =
     (case balances of
        None \<Rightarrow> Hidden
      | Some b \<Rightarrow>
         (if isLoading then Hidden
          else if isSufficient b then SufficientCard
          else if filBalance b = 0 \<or> usdfcBalance b = 0 then
            TokensRequired (filBalance b = 0) (usdfcBalance b = 0)
          else
            Remediation
              ((if isRateSufficient b \<and> \<not> isLockupSufficient b then
                  [LockupIncrease
                     (LockupIncreaseAction (Some (totalLockupNeeded b)) (Some (depositNeeded b))
                        (Some (rateNeeded b)) isProcessingPayment)]
                else []) @
               (if \<not> isRateSufficient b \<and> isLockupSufficient b then
                  [RateIncrease
                     (RateIncreaseAction (Some (resultLockupAllowance b)) (Some (rateNeeded b))
                        isProcessingPayment)]
                else []) @
               (if \<not> isRateSufficient b \<and> \<not> isLockupSufficient b then
                  [DepositAndIncrease
                     \<lparr>onClick = \<lparr>lockupAllowance = totalLockupNeeded b,
                                     epochRateAllowance = rateNeeded b,
                                     depositAmount = depositNeeded b\<rparr>,
                      disabled = isProcessingPayment\<rparr>]
                else []))))"

text \<open>The remediation children in a rendering.\<close>

fun remediation_children :: "ActionView \<Rightarrow> ActionChild list" where
  "remediation_children (Remediation children) = children"
| "remediation_children _ = []"

text \<open>
  Modelled from the spec: the hook that provides \<^verbatim>\<open>balances\<close> to the storage manager is
  not among the sources.  The presentation layer consumes the calculation result; the
  hook adds the wallet's FIL and USDFC balances to it, and provides nothing when the
  calculation failed.
\<close>

definition withWallet :: "StorageCalculationResult \<Rightarrow> int \<Rightarrow> int \<Rightarrow> Balances" where
  "withWallet r fil usdfc =
     \<lparr>rateNeeded = rateNeeded r,
      rateUsed = rateUsed r,
      currentStorageBytes = currentStorageBytes r,
      currentStorageGB = currentStorageGB r,
      totalLockupNeeded = totalLockupNeeded r,
      depositNeeded = depositNeeded r,
      persistenceDaysLeft = persistenceDaysLeft r,
      persistenceDaysLeftAtCurrentRate = persistenceDaysLeftAtCurrentRate r,
      isRateSufficient = isRateSufficient r,
      isLockupSufficient = isLockupSufficient r,
      isSufficient = isSufficient r,
      currentRateAllowanceGB = currentRateAllowanceGB r,
      resultLockupAllowance = resultLockupAllowance r,
      filBalance = fil,
      usdfcBalance = usdfc\<rparr>"

definition useBalances :: "error + StorageCalculationResult \<Rightarrow> int \<Rightarrow> int \<Rightarrow> Balances option" where
  "useBalances metrics fil usdfc =
     (case metrics of Inl e \<Rightarrow> None | Inr r \<Rightarrow> Some (withWallet r fil usdfc))"

section \<open>Example inputs\<close>

text \<open>A payment service that answers every query with the given snapshot.\<close>

definition serve ::
  "PandoraBalanceData \<Rightarrow> jsnum \<Rightarrow> bool \<Rightarrow> jsnum \<Rightarrow> error + PandoraBalanceData" where
  "serve pb capacity cdn days = Inr pb"

text \<open>Reading one field of a calculation that may have failed.\<close>

definition reported ::
  "(StorageCalculationResult \<Rightarrow> 'a) \<Rightarrow> error + StorageCalculationResult \<Rightarrow> 'a option" where
  "reported field x = (case x of Inl e \<Rightarrow> None | Inr r \<Rightarrow> Some (field r))"

text \<open>The scenario of the specification: five epochs per day, a lockup allowance of 1000
  of which 100 are used, and a required rate of 10 per epoch.\<close>

definition scenario_sdk :: sdk_constants where
  "scenario_sdk =
     \<lparr>EPOCHS_PER_DAY = 5, EPOCHS_PER_MONTH = 86400, GiB = 2 ^ 30, TiB = 2 ^ 40\<rparr>"

definition scenario_config :: config where
  "scenario_config = \<lparr>withCDN = False\<rparr>"

definition scenario_snapshot :: "int \<Rightarrow> int \<Rightarrow> PandoraBalanceData" where
  "scenario_snapshot allowance required =
     \<lparr>currentRateAllowance = allowance, currentRateUsed = 0,
      currentLockupAllowance = 1000, currentLockupUsed = 100,
      rateAllowanceNeeded = required, lockupAllowanceNeeded = 3000,
      depositAmountNeeded = 2000, costs_perEpoch = required\<rparr>"

definition scenario ::
  "int \<Rightarrow> int \<Rightarrow> int \<Rightarrow> error + StorageCalculationResult" where
  "scenario allowance required threshold =
     calculateStorageMetrics scenario_sdk scenario_config
       (serve (scenario_snapshot allowance required)) (Fin 30) (Fin 1024) threshold"

text \<open>A user who has granted nothing yet, asking for no capacity.\<close>

definition fresh_snapshot :: PandoraBalanceData where
  "fresh_snapshot =
     \<lparr>currentRateAllowance = 0, currentRateUsed = 0,
      currentLockupAllowance = 0, currentLockupUsed = 0,
      rateAllowanceNeeded = 0, lockupAllowanceNeeded = 0,
      depositAmountNeeded = 0, costs_perEpoch = 0\<rparr>"

text \<open>Balances with the given flags and amounts, for a wallet that holds both tokens.\<close>

definition example_balances :: "bool \<Rightarrow> bool \<Rightarrow> int \<Rightarrow> int \<Rightarrow> int \<Rightarrow> int \<Rightarrow> Balances" where
  "example_balances rateOk lockupOk lockup deposit rate allowance =
     \<lparr>rateNeeded = rate,
      rateUsed = 0,
      currentStorageBytes = 0,
      currentStorageGB = Fin 0,
      totalLockupNeeded = lockup,
      depositNeeded = deposit,
      persistenceDaysLeft = Fin 18,
      persistenceDaysLeftAtCurrentRate = PosInf,
      isRateSufficient = rateOk,
      isLockupSufficient = lockupOk,
      isSufficient = (rateOk \<and> lockupOk),
      currentRateAllowanceGB = Fin 0,
      resultLockupAllowance = allowance,
      filBalance = 1,
      usdfcBalance = 1\<rparr>"

definition fresh_metrics :: "error + StorageCalculationResult" where
  "fresh_metrics =
     calculateStorageMetrics synapse_sdk scenario_config (serve fresh_snapshot)
       (Fin 30) (Fin 0) 10"

section \<open>Properties of the number model\<close>

subsection \<open>Binary exponents and rounding to an integer\<close>

lemma quotient_of_pos:
  assumes "0 < q"
  shows "0 < fst (quotient_of q)" "0 < snd (quotient_of q)"
        "q = of_int (fst (quotient_of q)) / of_int (snd (quotient_of q))"
proof -
  obtain p d where pd: "quotient_of q = (p, d)" by (cases "quotient_of q")
  have d: "0 < d" using quotient_of_denom_pos[OF pd] .
  have q: "q = of_int p / of_int d" using quotient_of_div[OF pd] .
  have "0 < p" using assms d q by (simp add: zero_less_divide_iff)
  then show "0 < fst (quotient_of q)" "0 < snd (quotient_of q)"
        "q = of_int (fst (quotient_of q)) / of_int (snd (quotient_of q))"
    using pd d q by simp_all
qed

lemma bitlen_powi_bounds:
  assumes "0 < x"
  shows "(2::rat) powi (bitlen x - 1) \<le> of_int x" "of_int x < (2::rat) powi (bitlen x)"
proof -
  have b: "1 \<le> bitlen x" using assms by (simp add: bitlen_alt_def)
  have "(2::int) ^ nat (bitlen x - 1) \<le> x" "x < 2 ^ nat (bitlen x)"
    using bitlen_bounds[OF assms] by simp_all
  then have "(of_int ((2::int) ^ nat (bitlen x - 1))::rat) \<le> of_int x"
    "(of_int x :: rat) < of_int (2 ^ nat (bitlen x))"
    by (simp_all only: of_int_le_iff of_int_less_iff)
  then show "(2::rat) powi (bitlen x - 1) \<le> of_int x" "of_int x < (2::rat) powi (bitlen x)"
    using b by (simp_all add: power_int_def)
qed

lemma ilog2_bounds:
  assumes "0 < q"
  shows "2 powi (ilog2 q) \<le> q" "q < 2 powi (ilog2 q + 1)"
proof -
  define p where "p = fst (quotient_of q)"
  define d where "d = snd (quotient_of q)"
  define k where "k = bitlen p - bitlen d"
  have p: "0 < p" and d: "0 < d" and q: "q = of_int p / of_int d"
    using quotient_of_pos[OF assms] by (simp_all add: p_def d_def)
  note bp = bitlen_powi_bounds[OF p] and bd = bitlen_powi_bounds[OF d]
  have dpos: "(0::rat) < of_int d" using d by simp
  have up: "q < 2 powi (k + 1)"
  proof -
    have "of_int p < (2::rat) powi (bitlen p)" by (rule bp)
    also have "\<dots> = 2 powi (k + 1) * 2 powi (bitlen d - 1)"
      by (simp add: k_def power_int_add[symmetric])
    also have "\<dots> \<le> 2 powi (k + 1) * of_int d"
      using bd(1) by (intro mult_left_mono) simp_all
    finally show ?thesis using dpos by (simp add: q pos_divide_less_eq)
  qed
  have lo: "2 powi (k - 1) < q"
  proof -
    have "2 powi (k - 1) * of_int d < (2::rat) powi (k - 1) * 2 powi (bitlen d)"
      using bd(2) by (intro mult_strict_left_mono) simp_all
    also have "\<dots> = 2 powi (bitlen p - 1)"
      by (simp add: k_def power_int_add[symmetric])
    also have "\<dots> \<le> of_int p" by (rule bp)
    finally show ?thesis using dpos by (simp add: q pos_less_divide_eq)
  qed
  have il: "ilog2 q = (if 2 powi k \<le> q then k else k - 1)"
    by (simp add: ilog2_def Let_def k_def p_def d_def)
  show "2 powi (ilog2 q) \<le> q" using lo by (simp add: il)
  show "q < 2 powi (ilog2 q + 1)" using up by (simp add: il)
qed

lemma two_powi_less_D:
  assumes "(2::rat) powi m < 2 powi n"
  shows "m < n"
proof (rule ccontr)
  assume "\<not> m < n"
  then have "n \<le> m" by simp
  then have "(2::rat) powi n \<le> 2 powi m" by (intro power_int_increasing) simp_all
  with assms show False by simp
qed

lemma two_powi_pos: "(0::rat) < 2 powi k"
  by simp

lemma ilog2_mono:
  assumes "0 < a" "a \<le> b"
  shows "ilog2 a \<le> ilog2 b"
proof -
  have b: "0 < b" using assms by linarith
  have "(2::rat) powi (ilog2 a) < 2 powi (ilog2 b + 1)"
    using ilog2_bounds(1)[OF assms(1)] ilog2_bounds(2)[OF b] assms(2) by linarith
  then have "ilog2 a < ilog2 b + 1" by (rule two_powi_less_D)
  then show ?thesis by simp
qed

lemma ilog2_lower:
  assumes "2 powi k \<le> a"
  shows "k \<le> ilog2 a"
proof -
  have "(0::rat) < 2 powi k" by simp
  with assms have a: "0 < a" by linarith
  have "(2::rat) powi k < 2 powi (ilog2 a + 1)"
    using assms ilog2_bounds(2)[OF a] by linarith
  then have "k < ilog2 a + 1" by (rule two_powi_less_D)
  then show ?thesis by simp
qed

lemma round_half_even_of_int: "round_half_even (of_int n) = n"
  by (simp add: round_half_even_def)

lemma round_half_even_bounds:
  "of_int (round_half_even x) \<le> x + 1 / 2" "x - 1 / 2 \<le> of_int (round_half_even x)"
proof -
  have fl: "of_int \<lfloor>x\<rfloor> \<le> x" "x < of_int \<lfloor>x\<rfloor> + 1" by linarith+
  show "of_int (round_half_even x) \<le> x + 1 / 2"
    unfolding round_half_even_def Let_def using fl by (simp split: if_splits; linarith)
  show "x - 1 / 2 \<le> of_int (round_half_even x)"
    unfolding round_half_even_def Let_def using fl by (simp split: if_splits; linarith)
qed

lemma round_half_even_mono:
  assumes "x \<le> y"
  shows "round_half_even x \<le> round_half_even y"
proof (cases "\<lfloor>x\<rfloor> = \<lfloor>y\<rfloor>")
  case True
  then show ?thesis using assms
    by (auto simp: round_half_even_def Let_def)
next
  case False
  then have lt: "\<lfloor>x\<rfloor> + 1 \<le> \<lfloor>y\<rfloor>" using floor_mono[OF assms] by linarith
  have "round_half_even x \<le> \<lfloor>x\<rfloor> + 1" by (auto simp: round_half_even_def Let_def)
  moreover have "\<lfloor>y\<rfloor> \<le> round_half_even y" by (auto simp: round_half_even_def Let_def)
  ultimately show ?thesis using lt by linarith
qed

lemma round_half_even_ge_int: "of_int n \<le> x \<Longrightarrow> n \<le> round_half_even x"
  using round_half_even_mono[of "of_int n" x] by (simp add: round_half_even_of_int)

lemma round_half_even_le_int: "x \<le> of_int n \<Longrightarrow> round_half_even x \<le> n"
  using round_half_even_mono[of x "of_int n"] by (simp add: round_half_even_of_int)

subsection \<open>Numbers that are represented exactly\<close>

lemma ulp_exp_le:
  assumes "0 < m" "m < 2 ^ 53" "- 1074 \<le> e"
  shows "ulp_exp (of_int m * 2 powi e) \<le> e"
proof -
  define a :: rat where "a = of_int m * 2 powi e"
  have apos: "0 < a" using assms(1) by (simp add: a_def)
  have "of_int m < (2::rat) ^ 53" using assms(2) by (metis of_int_less_iff of_int_numeral of_int_power)
  then have "a < 2 ^ 53 * 2 powi e" unfolding a_def by (intro mult_strict_right_mono) simp_all
  also have "\<dots> = 2 powi (53 + e)" by (simp add: power_int_add)
  finally have "a < 2 powi (53 + e)" .
  with ilog2_bounds(1)[OF apos] have "(2::rat) powi (ilog2 a) < 2 powi (53 + e)" by linarith
  then have "ilog2 a < 53 + e" by (rule two_powi_less_D)
  then show ?thesis using assms(3) by (simp add: ulp_exp_def a_def)
qed

lemma round_mag_exact:
  assumes "0 < m" "m < 2 ^ 53" "- 1074 \<le> e"
  shows "round_mag (of_int m * 2 powi e) = of_int m * 2 powi e"
proof -
  define a :: rat where "a = of_int m * 2 powi e"
  define u where "u = ulp_exp a"
  have ue: "u \<le> e" using ulp_exp_le[OF assms] by (simp add: u_def a_def)
  have "a / 2 powi u = of_int m * 2 powi (e - u)"
    by (simp add: a_def power_int_diff)
  also have "\<dots> = of_int (m * 2 ^ nat (e - u))"
    using ue by (simp add: power_int_def)
  finally have "round_half_even (a / 2 powi u) = m * 2 ^ nat (e - u)"
    by (simp only: round_half_even_of_int)
  then have "round_mag a = of_int (m * 2 ^ nat (e - u)) * 2 powi u"
    by (simp add: round_mag_def u_def)
  also have "\<dots> = of_int m * (2 powi (e - u) * 2 powi u)"
    using ue by (simp add: power_int_def)
  also have "\<dots> = a" by (simp add: a_def power_int_add[symmetric])
  finally show ?thesis by (simp add: a_def)
qed

lemma double_of_rat_exact:
  assumes "0 < m" "m < 2 ^ 53" "- 1074 \<le> e" "of_int m * 2 powi e < (2::rat) ^ 1024"
  shows "double_of_rat (of_int m * 2 powi e) = Fin (of_int m * 2 powi e)"
    and "double_of_rat (- (of_int m * 2 powi e)) = Fin (- (of_int m * 2 powi e))"
proof -
  define a :: rat where "a = of_int m * 2 powi e"
  have apos: "0 < a" using assms(1) by (simp add: a_def)
  have r: "round_mag a = a" unfolding a_def by (rule round_mag_exact[OF assms(1-3)])
  have lt: "\<not> 2 ^ 1024 \<le> a" using assms(4) by (simp add: a_def)
  show "double_of_rat (of_int m * 2 powi e) = Fin (of_int m * 2 powi e)"
    using apos r lt unfolding a_def[symmetric] double_of_rat_def Let_def by simp
  show "double_of_rat (- (of_int m * 2 powi e)) = Fin (- (of_int m * 2 powi e))"
    using apos r lt unfolding a_def[symmetric] double_of_rat_def Let_def by simp
qed

lemma Number_exact:
  assumes "\<bar>n\<bar> < 2 ^ 53"
  shows "Number n = Fin (of_int n)"
proof -
  consider "n = 0" | "0 < n" | "n < 0" by linarith
  then show ?thesis
  proof cases
    case 1
    then show ?thesis by (simp add: Number_def double_of_rat_def)
  next
    case 2
    have "(of_int n :: rat) < 2 ^ 53" using assms 2 by (metis abs_of_pos of_int_less_iff of_int_numeral of_int_power)
    also have "\<dots> < 2 ^ 1024" by (rule power_strict_increasing) simp_all
    finally have "of_int n * 2 powi 0 < (2::rat) ^ 1024" by simp
    from double_of_rat_exact(1)[OF 2 _ _ this] assms 2 show ?thesis
      by (simp add: Number_def)
  next
    case 3
    then have p: "0 < - n" by simp
    have "(of_int (- n) :: rat) < 2 ^ 53" using assms 3 by (metis abs_of_neg of_int_less_iff of_int_numeral of_int_power)
    also have "\<dots> < 2 ^ 1024" by (rule power_strict_increasing) simp_all
    finally have "of_int (- n) * 2 powi 0 < (2::rat) ^ 1024" by simp
    from double_of_rat_exact(2)[OF p _ _ this] assms 3 show ?thesis
      by (simp add: Number_def)
  qed
qed

lemma Number_0: "Number 0 = Fin 0"
  by (simp add: Number_def double_of_rat_def)

lemma zero_by_zero: "js_div (Number 0) (Number 0) = NaN"
  by (simp add: Number_0 js_div_def)

lemma positive_by_zero: "js_div (Number 900) (Number 0) = PosInf"
  by (simp add: Number_0 Number_exact js_div_def signed_inf_def)

lemma scenario_days_left: "js_div (Number 900) (Number 50) = Fin 18"
  using double_of_rat_exact(1)[of 18 0]
  by (simp add: Number_exact js_div_def)

subsection \<open>Rounding is monotone\<close>

lemma ulp_exp_mono: "0 < a \<Longrightarrow> a \<le> b \<Longrightarrow> ulp_exp a \<le> ulp_exp b"
  using ilog2_mono[of a b] by (simp add: ulp_exp_def)

lemma ulp_exp_ge: "- 1074 \<le> ulp_exp a" "ilog2 a - 52 \<le> ulp_exp a"
  by (simp_all add: ulp_exp_def)

lemma round_mag_nonneg:
  assumes "0 < a"
  shows "0 \<le> round_mag a"
proof -
  have "(0::rat) \<le> a / 2 powi ulp_exp a" using assms by simp
  then have "0 \<le> round_half_even (a / 2 powi ulp_exp a)"
    using round_half_even_ge_int[of 0] by simp
  then show ?thesis by (simp add: round_mag_def)
qed

lemma round_mag_upper:
  assumes "0 < a"
  shows "round_mag a \<le> 2 powi (ulp_exp a + 53)"
proof -
  define u where "u = ulp_exp a"
  have "a < 2 powi (ilog2 a + 1)" by (rule ilog2_bounds(2)[OF assms])
  also have "\<dots> \<le> 2 powi (u + 53)"
    using ulp_exp_ge(2)[of a] by (intro power_int_increasing) (simp_all add: u_def)
  also have "\<dots> = 2 ^ 53 * 2 powi u" by (simp add: power_int_add)
  finally have "a / 2 powi u \<le> 2 ^ 53" by (simp add: pos_divide_le_eq)
  then have "a / 2 powi u \<le> of_int (2 ^ 53)" by simp
  then have "round_half_even (a / 2 powi u) \<le> 2 ^ 53" by (rule round_half_even_le_int)
  then have "(of_int (round_half_even (a / 2 powi u)) :: rat) \<le> of_int (2 ^ 53)"
    by (simp only: of_int_le_iff)
  then have "round_mag a \<le> 2 ^ 53 * 2 powi u"
    unfolding round_mag_def u_def[symmetric] by (intro mult_right_mono) simp_all
  then show ?thesis by (simp add: power_int_add u_def)
qed

lemma round_mag_lower:
  assumes "0 < a" "- 1074 < ulp_exp a"
  shows "2 powi (ulp_exp a + 52) \<le> round_mag a"
proof -
  define u where "u = ulp_exp a"
  have u: "u = ilog2 a - 52" using assms(2) by (simp add: ulp_exp_def u_def max_def split: if_splits)
  have "(2::rat) ^ 52 * 2 powi u = 2 powi (ilog2 a)" by (simp add: u power_int_diff)
  also have "\<dots> \<le> a" by (rule ilog2_bounds(1)[OF assms(1)])
  finally have "2 ^ 52 \<le> a / 2 powi u" by (simp add: pos_le_divide_eq)
  then have "of_int (2 ^ 52) \<le> a / 2 powi u" by simp
  then have "2 ^ 52 \<le> round_half_even (a / 2 powi u)" by (rule round_half_even_ge_int)
  then have "(of_int (2 ^ 52) :: rat) \<le> of_int (round_half_even (a / 2 powi u))"
    by (simp only: of_int_le_iff)
  then have "2 ^ 52 * 2 powi u \<le> round_mag a"
    unfolding round_mag_def u_def[symmetric] by (intro mult_right_mono) simp_all
  then show ?thesis by (simp add: power_int_add u_def mult.commute)
qed

lemma round_mag_mono:
  assumes "0 < a" "a \<le> b"
  shows "round_mag a \<le> round_mag b"
proof -
  have b: "0 < b" using assms by linarith
  consider "ulp_exp a = ulp_exp b" | "ulp_exp a < ulp_exp b"
    using ulp_exp_mono[OF assms] by linarith
  then show ?thesis
  proof cases
    case 1
    have "a / 2 powi ulp_exp b \<le> b / 2 powi ulp_exp b"
      using assms(2) by (simp add: divide_right_mono)
    then have "round_half_even (a / 2 powi ulp_exp b) \<le> round_half_even (b / 2 powi ulp_exp b)"
      by (rule round_half_even_mono)
    then have "(of_int (round_half_even (a / 2 powi ulp_exp b)) :: rat)
        \<le> of_int (round_half_even (b / 2 powi ulp_exp b))"
      by (simp only: of_int_le_iff)
    then show ?thesis
      unfolding round_mag_def 1 by (intro mult_right_mono) simp_all
  next
    case 2
    then have low: "- 1074 < ulp_exp b" using ulp_exp_ge(1)[of a] by linarith
    have "round_mag a \<le> 2 powi (ulp_exp a + 53)" by (rule round_mag_upper[OF assms(1)])
    also have "\<dots> \<le> 2 powi (ulp_exp b + 52)"
      using 2 by (intro power_int_increasing) simp_all
    also have "\<dots> \<le> round_mag b" by (rule round_mag_lower[OF b low])
    finally show ?thesis .
  qed
qed

lemma double_of_rat_pos:
  assumes "0 < q"
  shows "double_of_rat q =
     (if round_mag q = 0 then Fin 0
      else if 2 ^ 1024 \<le> round_mag q then PosInf else Fin (round_mag q))"
  using assms by (simp add: double_of_rat_def Let_def signed_zero_def signed_inf_def)

lemma double_of_rat_neg:
  assumes "q < 0"
  shows "double_of_rat q =
     (if round_mag (- q) = 0 then NegZero
      else if 2 ^ 1024 \<le> round_mag (- q) then NegInf else Fin (- round_mag (- q)))"
  using assms by (simp add: double_of_rat_def Let_def signed_zero_def signed_inf_def)

lemma double_of_rat_mono:
  assumes "p \<le> q"
  shows "js_le (double_of_rat p) (double_of_rat q)"
proof -
  have zero: "double_of_rat 0 = Fin 0" by (simp add: double_of_rat_def)
  consider "0 < p" | "p = 0" "q = 0" | "p = 0" "0 < q" | "p < 0" "q = 0" | "p < 0" "0 < q"
    | "q < 0"
    using assms by linarith
  then show ?thesis
  proof cases
    case 1
    then have q: "0 < q" using assms by linarith
    have "round_mag p \<le> round_mag q" by (rule round_mag_mono[OF 1 assms])
    moreover have "0 \<le> round_mag p" by (rule round_mag_nonneg[OF 1])
    ultimately show ?thesis
      by (auto simp: double_of_rat_pos[OF 1] double_of_rat_pos[OF q])
  next
    case 2
    then show ?thesis by (simp add: zero)
  next
    case 3
    have "0 \<le> round_mag q" by (rule round_mag_nonneg[OF 3(2)])
    then show ?thesis by (auto simp: 3(1) zero double_of_rat_pos[OF 3(2)])
  next
    case 4
    have "0 \<le> round_mag (- p)" using round_mag_nonneg[of "- p"] 4 by simp
    then show ?thesis by (auto simp: 4(2) zero double_of_rat_neg[OF 4(1)])
  next
    case 5
    have "0 \<le> round_mag (- p)" using round_mag_nonneg[of "- p"] 5 by simp
    moreover have "0 \<le> round_mag q" by (rule round_mag_nonneg[OF 5(2)])
    ultimately show ?thesis
      by (auto simp: double_of_rat_neg[OF 5(1)] double_of_rat_pos[OF 5(2)])
  next
    case 6
    then have p: "p < 0" using assms by linarith
    have "round_mag (- q) \<le> round_mag (- p)"
      using round_mag_mono[of "- q" "- p"] 6 assms by simp
    moreover have "0 \<le> round_mag (- q)" using round_mag_nonneg[of "- q"] 6 by simp
    ultimately show ?thesis
      by (auto simp: double_of_rat_neg[OF 6] double_of_rat_neg[OF p])
  qed
qed

lemma round_mag_ge_1:
  assumes "1 \<le> a"
  shows "1 \<le> round_mag a"
proof -
  have "(of_int 1 :: rat) * 2 powi 0 \<le> a" using assms by simp
  then have "round_mag (of_int 1 * 2 powi 0) \<le> round_mag a"
    by (intro round_mag_mono) simp_all
  moreover have "round_mag (of_int 1 * 2 powi 0) = of_int 1 * 2 powi 0"
    by (rule round_mag_exact) simp_all
  ultimately show ?thesis by simp
qed

lemma Number_shape: "Number n = NegInf \<or> Number n = PosInf \<or> (\<exists>v. Number n = Fin v)"
proof -
  consider "n = 0" | "0 < n" | "n < 0" by linarith
  then show ?thesis
  proof cases
    case 1
    then show ?thesis by (simp add: Number_def double_of_rat_def)
  next
    case 2
    then have p: "(0::rat) < of_int n" by simp
    have "(1::rat) \<le> of_int n" using 2 by simp
    then have "round_mag (of_int n) \<noteq> 0" using round_mag_ge_1[of "of_int n"] by linarith
    then show ?thesis by (simp add: Number_def double_of_rat_pos[OF p])
  next
    case 3
    then have p: "(of_int n :: rat) < 0" by simp
    have "(1::rat) \<le> - of_int n" using 3 by simp
    then have "round_mag (- of_int n) \<noteq> 0" using round_mag_ge_1[of "- of_int n"] by linarith
    then show ?thesis by (simp add: Number_def double_of_rat_neg[OF p])
  qed
qed

lemma Number_cases:
  obtains "Number n = NegInf" | "Number n = PosInf" | v where "Number n = Fin v"
  using Number_shape[of n] by blast

lemma js_div_Fin_pos: "0 < g \<Longrightarrow> js_div (Fin u) (Fin g) = double_of_rat (u / g)"
  by (simp add: js_div_def signed_zero_def double_of_rat_def)

lemma js_div_PosInf_pos: "0 < g \<Longrightarrow> js_div PosInf (Fin g) = PosInf"
  by (simp add: js_div_def signed_inf_def)

lemma js_div_NegInf_pos: "0 < g \<Longrightarrow> js_div NegInf (Fin g) = NegInf"
  by (simp add: js_div_def signed_inf_def)

lemma double_of_rat_not_NaN: "double_of_rat q \<noteq> NaN"
  by (simp add: double_of_rat_def Let_def signed_zero_def signed_inf_def)

lemma js_le_NegInf: "y \<noteq> NaN \<Longrightarrow> js_le NegInf y"
  by (cases y) simp_all

lemma js_le_PosInf: "x \<noteq> NaN \<Longrightarrow> js_le x PosInf"
  by (cases x) simp_all

lemma js_div_Number_mono:
  assumes "m \<le> n" "0 < g"
  shows "js_le (js_div (Number m) (Fin g)) (js_div (Number n) (Fin g))"
proof -
  have le: "js_le (Number m) (Number n)"
    unfolding Number_def using assms(1) by (intro double_of_rat_mono) simp
  show ?thesis
  proof (cases m rule: Number_cases)
    case 1
    show ?thesis
    proof (cases n rule: Number_cases)
      case 1 then show ?thesis using \<open>Number m = NegInf\<close> assms(2)
        by (simp add: js_div_NegInf_pos)
    next
      case 2 then show ?thesis using \<open>Number m = NegInf\<close> assms(2)
        by (simp add: js_div_NegInf_pos js_div_PosInf_pos)
    next
      case (3 v) then show ?thesis using \<open>Number m = NegInf\<close> assms(2)
        by (simp add: js_div_NegInf_pos js_div_Fin_pos js_le_NegInf double_of_rat_not_NaN)
    qed
  next
    case 2
    then have "Number n = PosInf" using le by (cases n rule: Number_cases) simp_all
    then show ?thesis using 2 assms(2) by (simp add: js_div_PosInf_pos)
  next
    case (3 u)
    show ?thesis
    proof (cases n rule: Number_cases)
      case 1 then show ?thesis using 3 le by simp
    next
      case 2 then show ?thesis using 3 assms(2)
        by (simp add: js_div_PosInf_pos js_div_Fin_pos js_le_PosInf double_of_rat_not_NaN)
    next
      case (3 v)
      then have "u \<le> v" using \<open>Number m = Fin u\<close> le by simp
      then have "u / g \<le> v / g" using assms(2) by (simp add: divide_right_mono)
      then show ?thesis using 3 \<open>Number m = Fin u\<close> assms(2)
        by (simp add: js_div_Fin_pos double_of_rat_mono)
    qed
  qed
qed

lemma Number_sign:
  "0 < n \<Longrightarrow> Number n = PosInf \<or> (\<exists>v. 0 < v \<and> Number n = Fin v)"
  "n < 0 \<Longrightarrow> Number n = NegInf \<or> (\<exists>v. v < 0 \<and> Number n = Fin v)"
proof -
  assume n: "0 < n"
  then have p: "(0::rat) < of_int n" by simp
  have "(1::rat) \<le> of_int n" using n by simp
  then have "1 \<le> round_mag (of_int n)" by (rule round_mag_ge_1)
  then have "0 < round_mag (of_int n)" by linarith
  then show "Number n = PosInf \<or> (\<exists>v. 0 < v \<and> Number n = Fin v)"
    by (simp add: Number_def double_of_rat_pos[OF p])
next
  assume n: "n < 0"
  then have p: "(of_int n :: rat) < 0" by simp
  have "(1::rat) \<le> - of_int n" using n by simp
  then have "1 \<le> round_mag (- of_int n)" by (rule round_mag_ge_1)
  then have "0 < round_mag (- of_int n)" by linarith
  then show "Number n = NegInf \<or> (\<exists>v. v < 0 \<and> Number n = Fin v)"
    by (simp add: Number_def double_of_rat_neg[OF p])
qed

lemma js_div_Number_by_zero:
  "js_div (Number n) (Number 0) = (if 0 < n then PosInf else if n = 0 then NaN else NegInf)"
proof -
  consider "0 < n" | "n = 0" | "n < 0" by linarith
  then show ?thesis
  proof cases
    case 1
    then show ?thesis using Number_sign(1)[OF 1]
      by (auto simp: Number_0 js_div_def signed_inf_def)
  next
    case 2
    then show ?thesis by (simp add: zero_by_zero)
  next
    case 3
    then show ?thesis using Number_sign(2)[OF 3]
      by (auto simp: Number_0 js_div_def signed_inf_def)
  qed
qed

subsection \<open>The rounding error\<close>

lemma round_mag_error:
  assumes "0 < a" "- 1022 \<le> ilog2 a"
  shows "\<bar>round_mag a - a\<bar> \<le> a / 2 ^ 53"
proof -
  define u where "u = ulp_exp a"
  define x where "x = a / 2 powi u"
  have u: "u = ilog2 a - 52" using assms(2) by (simp add: u_def ulp_exp_def)
  have a: "a = x * 2 powi u" by (simp add: x_def)
  have "\<bar>of_int (round_half_even x) - x\<bar> \<le> 1 / 2"
    using round_half_even_bounds[of x] by linarith
  then have "\<bar>of_int (round_half_even x) - x\<bar> * 2 powi u \<le> 1 / 2 * 2 powi u"
    by (intro mult_right_mono) simp_all
  moreover have "round_mag a - a = (of_int (round_half_even x) - x) * 2 powi u"
    unfolding round_mag_def u_def[symmetric] x_def[symmetric] by (simp add: a algebra_simps)
  ultimately have 1: "\<bar>round_mag a - a\<bar> \<le> 2 powi u / 2"
    by (simp add: abs_mult)
  have "(2::rat) powi u * 2 ^ 52 = 2 powi (ilog2 a)" by (simp add: u power_int_diff)
  also have "\<dots> \<le> a" by (rule ilog2_bounds(1)[OF assms(1)])
  finally have "(2::rat) powi u \<le> a / 2 ^ 52" by (simp add: pos_le_divide_eq)
  then have "(2::rat) powi u / 2 \<le> a / 2 ^ 52 / 2" by (simp add: divide_right_mono)
  also have "\<dots> = a / 2 ^ 53" by simp
  finally show ?thesis using 1 by linarith
qed

lemma double_of_rat_error:
  assumes "2 powi (- 1022) \<le> \<bar>q\<bar>" "\<bar>q\<bar> < 2 ^ 1023"
  shows "\<exists>v. double_of_rat q = Fin v \<and> \<bar>v - q\<bar> \<le> \<bar>q\<bar> / 2 ^ 53"
proof -
  define a where "a = \<bar>q\<bar>"
  have "(0::rat) < 2 powi (- 1022)" by (rule two_powi_pos)
  with assms(1) have apos: "0 < a" unfolding a_def by linarith
  then have q: "q \<noteq> 0" by (auto simp: a_def)
  have il: "- 1022 \<le> ilog2 a" using assms(1) unfolding a_def by (rule ilog2_lower)
  note e = round_mag_error[OF apos il]
  have "a / 2 ^ 53 < a" using apos by (simp add: field_simps)
  with e have nz: "round_mag a \<noteq> 0" by linarith
  have "a / 2 ^ 53 \<le> a" using apos by (simp add: field_simps)
  with e have "round_mag a \<le> 2 * a" by linarith
  also have "\<dots> < 2 * 2 ^ 1023" using assms(2) by (simp add: a_def)
  finally have fin: "\<not> 2 ^ 1024 \<le> round_mag a" by simp
  have d: "double_of_rat q = Fin (sgn q * round_mag a)"
    using q nz fin unfolding double_of_rat_def Let_def a_def[symmetric] by simp
  have "sgn q * round_mag a - q = sgn q * (round_mag a - a)"
    by (simp add: a_def algebra_simps sgn_if)
  then have "\<bar>sgn q * round_mag a - q\<bar> = \<bar>round_mag a - a\<bar>"
    using q by (simp add: abs_mult sgn_if)
  then show ?thesis using d e by (simp add: a_def)
qed

lemma Number_error:
  assumes "\<bar>n\<bar> < 2 ^ 1000"
  shows "\<exists>x. Number n = Fin x \<and> \<bar>x - of_int n\<bar> \<le> \<bar>of_int n\<bar> / 2 ^ 53"
proof (cases "n = 0")
  case True
  then show ?thesis by (simp add: Number_0)
next
  case False
  then have "(1::rat) \<le> \<bar>of_int n\<bar>"
    by (metis abs_ge_zero int_one_le_iff_zero_less of_int_1 of_int_abs of_int_le_iff
        order_le_less zero_less_abs_iff)
  moreover have "(2::rat) powi (- 1022) \<le> 1"
    by (simp add: power_int_def field_simps)
  ultimately have lo: "2 powi (- 1022) \<le> \<bar>(of_int n :: rat)\<bar>" by linarith
  have "(of_int \<bar>n\<bar> :: rat) < of_int (2 ^ 1000)" using assms by (simp only: of_int_less_iff)
  then have "\<bar>(of_int n :: rat)\<bar> < 2 ^ 1000" by simp
  also have "\<dots> < 2 ^ 1023" by (rule power_strict_increasing) simp_all
  finally have hi: "\<bar>(of_int n :: rat)\<bar> < 2 ^ 1023" .
  show ?thesis unfolding Number_def by (rule double_of_rat_error[OF lo hi])
qed

lemma quotient_error:
  fixes x y n d q u :: rat
  assumes x: "\<bar>x - n\<bar> \<le> \<bar>n\<bar> * u" and y: "\<bar>y - d\<bar> \<le> d * u" and d: "0 < d"
    and q: "\<bar>q - x / y\<bar> \<le> \<bar>x / y\<bar> * u" and u: "0 \<le> u" "u \<le> 1 / 5"
  shows "\<bar>q - n / d\<bar> \<le> \<bar>n / d\<bar> * (4 * u)"
proof -
  define N where "N = \<bar>n\<bar>"
  have N: "0 \<le> N" by (simp add: N_def)
  have ylo: "d * (1 - u) \<le> y" using y by (simp add: abs_le_iff algebra_simps)
  have dpos: "0 < d * (1 - u)" using d u by simp
  then have ypos: "0 < y" using ylo by linarith
  have pos: "0 < y * (d * (1 - u))" using ypos dpos by (rule mult_pos_pos)
  have xhi: "\<bar>x\<bar> \<le> N * (1 + u)"
    using x unfolding N_def by (simp add: algebra_simps)
  have "x * d - n * y = (x - n) * d - n * (y - d)" by (simp add: algebra_simps)
  then have "\<bar>x * d - n * y\<bar> \<le> \<bar>x - n\<bar> * d + N * \<bar>y - d\<bar>"
    using d by (simp add: N_def abs_mult[symmetric]) (metis abs_of_pos abs_mult abs_triangle_ineq4)
  also have "\<dots> \<le> N * u * d + N * (d * u)"
    using x y d N by (intro add_mono mult_right_mono mult_left_mono) (simp_all add: N_def)
  finally have num: "\<bar>x * d - n * y\<bar> \<le> 2 * N * u * d" by (simp add: algebra_simps)
  have "x / y - n / d = (x * d - n * y) / (y * d)"
    using ypos d by (simp add: field_simps)
  then have "\<bar>x / y - n / d\<bar> = \<bar>x * d - n * y\<bar> / (y * d)"
    using ypos d by (simp add: abs_mult)
  also have "\<dots> \<le> 2 * N * u * d / (y * d)"
    using num ypos d by (intro divide_right_mono) simp_all
  also have "\<dots> = 2 * N * u / y" using d by simp
  also have "\<dots> \<le> 2 * N * u / (d * (1 - u))"
  proof -
    have "0 \<le> 2 * N * u" using N u by simp
    then show ?thesis by (rule divide_left_mono[OF ylo _ pos])
  qed
  finally have e1: "\<bar>x / y - n / d\<bar> \<le> 2 * N * u / (d * (1 - u))" .
  have "\<bar>x / y\<bar> = \<bar>x\<bar> / y" using ypos by simp
  also have "\<dots> \<le> N * (1 + u) / y" using xhi ypos by (intro divide_right_mono) simp_all
  also have "\<dots> \<le> N * (1 + u) / (d * (1 - u))"
  proof -
    have "0 \<le> N * (1 + u)" using N u by simp
    then show ?thesis by (rule divide_left_mono[OF ylo _ pos])
  qed
  finally have "\<bar>x / y\<bar> * u \<le> N * (1 + u) / (d * (1 - u)) * u"
    using u by (intro mult_right_mono) simp_all
  with q have e2: "\<bar>q - x / y\<bar> \<le> N * (1 + u) * u / (d * (1 - u))" by simp
  have "\<bar>q - n / d\<bar> \<le> \<bar>q - x / y\<bar> + \<bar>x / y - n / d\<bar>" by linarith
  also have "\<dots> \<le> N * (1 + u) * u / (d * (1 - u)) + 2 * N * u / (d * (1 - u))"
    using e1 e2 by linarith
  also have "\<dots> = N * (u * (3 + u)) / (d * (1 - u))"
    by (simp add: algebra_simps add_divide_distrib)
  also have "\<dots> \<le> N * (4 * u * (1 - u)) / (d * (1 - u))"
  proof -
    have "u * (3 + u) \<le> 4 * u * (1 - u)"
    proof -
      have "4 * u * (1 - u) - u * (3 + u) = u * (1 - 5 * u)" by (simp add: algebra_simps)
      moreover have "0 \<le> u * (1 - 5 * u)" using u by (intro mult_nonneg_nonneg) simp_all
      ultimately show ?thesis by linarith
    qed
    then show ?thesis using N dpos by (intro divide_right_mono mult_left_mono) simp_all
  qed
  also have "\<dots> = N / d * (4 * u)" using dpos d u by (simp add: field_simps)
  finally show ?thesis using d by (simp add: N_def)
qed

lemma js_div_Number_error:
  assumes n: "\<bar>n\<bar> < 2 ^ 1000" and d: "0 < d" "d < 2 ^ 1000"
  shows "\<exists>q. js_div (Number n) (Number d) = Fin q
           \<and> \<bar>q - of_int n / of_int d\<bar> \<le> \<bar>of_int n / of_int d\<bar> / 2 ^ 51"
proof -
  define N :: rat where "N = of_int n"
  define D :: rat where "D = of_int d"
  have D1: "1 \<le> D" using d(1) by (simp add: D_def)
  have Dhi: "D < 2 ^ 1000"
  proof -
    have "(of_int d :: rat) < of_int (2 ^ 1000)" using d(2) by (simp only: of_int_less_iff)
    then show ?thesis by (simp add: D_def)
  qed
  have Nhi: "\<bar>N\<bar> < 2 ^ 1000"
  proof -
    have "(of_int \<bar>n\<bar> :: rat) < of_int (2 ^ 1000)" using n by (simp only: of_int_less_iff)
    then show ?thesis by (simp add: N_def)
  qed
  obtain x where x: "Number n = Fin x" "\<bar>x - N\<bar> \<le> \<bar>N\<bar> / 2 ^ 53"
    using Number_error[OF n] unfolding N_def by blast
  have "\<bar>d\<bar> < 2 ^ 1000" using d by simp
  then obtain y where y: "Number d = Fin y" "\<bar>y - D\<bar> \<le> D / 2 ^ 53"
    using Number_error[of d] D1 unfolding D_def by auto
  have Dsmall: "D / 2 ^ 53 \<le> D / 2" using D1 by (simp add: field_simps)
  have ylo: "D / 2 \<le> y" and yhi: "y \<le> 2 * D" using y(2) Dsmall by linarith+
  have ypos: "0 < y" using ylo D1 by linarith
  have div: "js_div (Number n) (Number d) = double_of_rat (x / y)"
    by (simp add: x(1) y(1) js_div_Fin_pos[OF ypos])
  show ?thesis
  proof (cases "n = 0")
    case True
    then have "x = 0" using x(2) by (simp add: N_def)
    then have "js_div (Number n) (Number d) = Fin 0" by (simp add: div double_of_rat_def)
    then show ?thesis unfolding True by simp
  next
    case False
    then have N1: "1 \<le> \<bar>N\<bar>"
      unfolding N_def
      by (metis abs_ge_zero int_one_le_iff_zero_less of_int_1 of_int_abs of_int_le_iff
          order_le_less zero_less_abs_iff)
    have Nsmall: "\<bar>N\<bar> / 2 ^ 53 \<le> \<bar>N\<bar> / 2" by (simp add: field_simps)
    have xlo: "1 / 2 \<le> \<bar>x\<bar>" using x(2) Nsmall N1 by linarith
    have "\<bar>x\<bar> < 2 * 2 ^ 1000" using x(2) Nsmall Nhi by linarith
    then have xhi: "\<bar>x\<bar> < 2 ^ 1001" by simp
    have "y * 2 powi (- 1022) \<le> 2 ^ 1001 * 2 powi (- 1022)"
      using yhi Dhi by (intro mult_right_mono) simp_all
    also have "\<dots> \<le> 1 / 2" by (simp add: power_int_def field_simps)
    finally have "y * 2 powi (- 1022) \<le> \<bar>x\<bar>" using xlo by linarith
    then have lo: "2 powi (- 1022) \<le> \<bar>x / y\<bar>"
      using ypos by (simp add: pos_le_divide_eq mult.commute)
    have "\<bar>x\<bar> < 2 ^ 1023 * (1 / 2)" using xhi by simp
    also have "\<dots> \<le> 2 ^ 1023 * y"
      using ylo D1 by (intro mult_left_mono) simp_all
    finally have hi: "\<bar>x / y\<bar> < 2 ^ 1023"
      using ypos by (simp add: pos_divide_less_eq)
    obtain q where q: "double_of_rat (x / y) = Fin q" "\<bar>q - x / y\<bar> \<le> \<bar>x / y\<bar> / 2 ^ 53"
      using double_of_rat_error[OF lo hi] by blast
    have "\<bar>q - N / D\<bar> \<le> \<bar>N / D\<bar> * (4 * (1 / 2 ^ 53))"
    proof (rule quotient_error)
      show "\<bar>x - N\<bar> \<le> \<bar>N\<bar> * (1 / 2 ^ 53)" using x(2) by simp
      show "\<bar>y - D\<bar> \<le> D * (1 / 2 ^ 53)" using y(2) by simp
      show "0 < D" using D1 by linarith
      show "\<bar>q - x / y\<bar> \<le> \<bar>x / y\<bar> * (1 / 2 ^ 53)" using q(2) by simp
      show "(0::rat) \<le> 1 / 2 ^ 53" by simp
      show "(1::rat) / 2 ^ 53 \<le> 1 / 5" by simp
    qed
    also have "\<dots> = \<bar>N / D\<bar> / 2 ^ 51" by simp
    finally show ?thesis using q(1) by (simp add: div N_def D_def)
  qed
qed

section \<open>The calculation never fails on a snapshot\<close>

lemma getPricePerTBPerMonth_pos: "0 < getPricePerTBPerMonth cfg"
  by (simp add: getPricePerTBPerMonth_def PRICE_PER_TB_PER_MONTH_def
      PRICE_PER_TB_PER_MONTH_CDN_def)

lemma bigint_div_pos_divisor:
  "0 < b \<Longrightarrow> bigint_div a b = Inr (sgn a * (\<bar>a\<bar> div b))"
  by (simp add: bigint_div_def)

lemma calculateRateAllowanceGB_eq:
  "calculateRateAllowanceGB k cfg a =
     Inr (js_div
            (Number (sgn (a * EPOCHS_PER_MONTH k * TiB k) *
                     (\<bar>a * EPOCHS_PER_MONTH k * TiB k\<bar> div getPricePerTBPerMonth cfg)))
            (Number (GiB k)))"
  by (simp add: calculateRateAllowanceGB_def Let_def
      bigint_div_pos_divisor[OF getPricePerTBPerMonth_pos])

lemma calculateStorageMetrics_fields:
  assumes "checkAllowanceForStorage storageCapacity (withCDN cfg) days = Inr pb"
    and "calculateStorageMetrics k cfg checkAllowanceForStorage days storageCapacity threshold = Inr r"
  shows "rateNeeded r = costs_perEpoch pb"
    and "rateUsed r = currentRateUsed pb"
    and "currentStorageBytes r = fst (calculateCurrentStorageUsage k pb storageCapacity)"
    and "currentStorageGB r = snd (calculateCurrentStorageUsage k pb storageCapacity)"
    and "totalLockupNeeded r = lockupAllowanceNeeded pb"
    and "depositNeeded r = depositAmountNeeded pb"
    and "persistenceDaysLeft r =
           js_div (Number (currentLockupAllowance pb - currentLockupUsed pb))
                  (Number (EPOCHS_PER_DAY k * costs_perEpoch pb))"
    and "persistenceDaysLeftAtCurrentRate r =
           (if EPOCHS_PER_DAY k * currentRateUsed pb > 0
            then js_div (Number (currentLockupAllowance pb - currentLockupUsed pb))
                        (Number (EPOCHS_PER_DAY k * currentRateUsed pb))
            else if currentLockupAllowance pb - currentLockupUsed pb > 0 then PosInf else Fin 0)"
    and "isRateSufficient r = (costs_perEpoch pb \<le> currentRateAllowance pb)"
    and "isLockupSufficient r = ge_bigint (persistenceDaysLeft r) threshold"
    and "isSufficient r = (isRateSufficient r \<and> isLockupSufficient r)"
    and "resultLockupAllowance r = currentLockupAllowance pb"
  using assms
  by (auto simp: calculateStorageMetrics_def calculateRateAllowanceGB_eq Let_def)

lemma calculateStorageMetrics_total:
  assumes "checkAllowanceForStorage storageCapacity (withCDN cfg) days = Inr pb"
  shows "\<exists>r. calculateStorageMetrics k cfg checkAllowanceForStorage days storageCapacity threshold = Inr r"
  using assms
  by (simp add: calculateStorageMetrics_def calculateRateAllowanceGB_eq Let_def)

lemma calculateStorageMetrics_fetch:
  assumes "calculateStorageMetrics k cfg checkAllowanceForStorage days storageCapacity threshold = Inr r"
  shows "\<exists>pb. checkAllowanceForStorage storageCapacity (withCDN cfg) days = Inr pb"
  using assms
  by (cases "checkAllowanceForStorage storageCapacity (withCDN cfg) days")
     (simp_all add: calculateStorageMetrics_def)

section \<open>The example inputs, evaluated\<close>

lemma scenario_eval:
  "\<exists>r. scenario a n t = Inr r
     \<and> isRateSufficient r = (n \<le> a)
     \<and> persistenceDaysLeft r = js_div (Number 900) (Number (5 * n))
     \<and> isLockupSufficient r = ge_bigint (js_div (Number 900) (Number (5 * n))) t"
proof -
  have fetch: "serve (scenario_snapshot a n) (Fin 1024) (withCDN scenario_config) (Fin 30)
      = Inr (scenario_snapshot a n)"
    by (simp add: serve_def)
  obtain r where r: "calculateStorageMetrics scenario_sdk scenario_config
       (serve (scenario_snapshot a n)) (Fin 30) (Fin 1024) t = Inr r"
    using calculateStorageMetrics_total[where checkAllowanceForStorage = "serve (scenario_snapshot a n)"
        and storageCapacity = "Fin 1024" and cfg = scenario_config and days = "Fin 30", OF fetch]
    by blast
  note f = calculateStorageMetrics_fields[where checkAllowanceForStorage = "serve (scenario_snapshot a n)"
        and storageCapacity = "Fin 1024" and cfg = scenario_config and days = "Fin 30", OF fetch r]
  show ?thesis
    using f(7,9,10) r by (simp add: scenario_def scenario_snapshot_def scenario_sdk_def)
qed

lemma fresh_eval:
  "\<exists>r. fresh_metrics = Inr r
     \<and> persistenceDaysLeft r = js_div (Number 0) (Number 0)
     \<and> persistenceDaysLeftAtCurrentRate r = Fin 0"
proof -
  have fetch: "serve fresh_snapshot (Fin 0) (withCDN scenario_config) (Fin 30) = Inr fresh_snapshot"
    by (simp add: serve_def)
  obtain r where r: "calculateStorageMetrics synapse_sdk scenario_config
       (serve fresh_snapshot) (Fin 30) (Fin 0) 10 = Inr r"
    using calculateStorageMetrics_total[where checkAllowanceForStorage = "serve fresh_snapshot"
        and storageCapacity = "Fin 0" and cfg = scenario_config and days = "Fin 30", OF fetch]
    by blast
  note f = calculateStorageMetrics_fields[where checkAllowanceForStorage = "serve fresh_snapshot"
        and storageCapacity = "Fin 0" and cfg = scenario_config and days = "Fin 30", OF fetch r]
  show ?thesis
    using f(7,8) r by (simp add: fresh_metrics_def fresh_snapshot_def)
qed

section \<open>Sufficiency flags\<close>

text \<open>
  Claim C1.  Whenever the calculation returns a result, its overall sufficiency flag is
  the conjunction of the rate flag and the lockup flag.  The four instances below run
  the scenario with a rate allowance of 10 or 5 against a required rate of 10, and a
  threshold of 10 or 20 days against a runway of 18 days, which gives the four
  combinations of the two flags.
\<close>

theorem overall_flag_is_conjunction:
  assumes "calculateStorageMetrics k cfg checkAllowanceForStorage days storageCapacity threshold = Inr r"
  shows "isSufficient r = (isRateSufficient r \<and> isLockupSufficient r)"
proof -
  obtain pb where "checkAllowanceForStorage storageCapacity (withCDN cfg) days = Inr pb"
    using calculateStorageMetrics_fetch[OF assms] by blast
  then show ?thesis using assms by (rule calculateStorageMetrics_fields(11))
qed

theorem overall_flag_is_conjunction_witness:
  "reported isSufficient (scenario 10 10 10) = Some True
   \<and> reported isSufficient (scenario 10 10 20) = Some False
   \<and> reported isSufficient (scenario 5 10 10) = Some False
   \<and> reported isSufficient (scenario 5 10 20) = Some False"
proof -
  have *: "reported isSufficient (scenario a 10 t) = Some (10 \<le> a \<and> of_int t \<le> (18::rat))" for a t
  proof -
    obtain r where r: "scenario a 10 t = Inr r"
      and f: "isRateSufficient r = (10 \<le> a)"
         "isLockupSufficient r = ge_bigint (js_div (Number 900) (Number (5 * 10))) t"
      using scenario_eval[of a 10 t] by blast
    have "isSufficient r = (isRateSufficient r \<and> isLockupSufficient r)"
      using r unfolding scenario_def by (rule overall_flag_is_conjunction)
    then show ?thesis using f by (simp add: r reported_def scenario_days_left)
  qed
  show ?thesis by (simp add: *)
qed

text \<open>
  Claim C5.  The rate flag holds exactly when the current rate allowance is at least the
  required rate, and the lockup flag exactly when the remaining days at the required
  rate are at least the threshold, in the sense of JavaScript's \<^verbatim>\<open>>=\<close> between a number
  and a bigint; for a finite number of days this is the non-strict order of the
  rationals.  In the scenario an allowance equal to the required rate is sufficient,
  and 18 days are sufficient against a threshold of 10 and of 18, but not of 20.
\<close>

theorem sufficiency_comparisons_non_strict:
  assumes "checkAllowanceForStorage storageCapacity (withCDN cfg) days = Inr pb"
    and "calculateStorageMetrics k cfg checkAllowanceForStorage days storageCapacity threshold = Inr r"
  shows "(isRateSufficient r \<longleftrightarrow> rateNeeded r \<le> currentRateAllowance pb)
       \<and> (isLockupSufficient r \<longleftrightarrow> ge_bigint (persistenceDaysLeft r) threshold)
       \<and> (\<forall>q. persistenceDaysLeft r = Fin q \<longrightarrow>
              (isLockupSufficient r \<longleftrightarrow> of_int threshold \<le> q))"
  using calculateStorageMetrics_fields(1,9,10)[OF assms] by auto

theorem sufficiency_comparisons_non_strict_witness:
  "reported isRateSufficient (scenario 10 10 10) = Some True
   \<and> reported isRateSufficient (scenario 9 10 10) = Some False
   \<and> reported persistenceDaysLeft (scenario 10 10 10) = Some (Fin 18)
   \<and> reported isLockupSufficient (scenario 10 10 10) = Some True
   \<and> reported isLockupSufficient (scenario 10 10 18) = Some True
   \<and> reported isLockupSufficient (scenario 10 10 20) = Some False"
proof -
  have *: "reported isRateSufficient (scenario a 10 t) = Some (10 \<le> a)
      \<and> reported persistenceDaysLeft (scenario a 10 t) = Some (Fin 18)
      \<and> reported isLockupSufficient (scenario a 10 t) = Some (of_int t \<le> (18::rat))" for a t
  proof -
    have fetch: "serve (scenario_snapshot a 10) (Fin 1024) (withCDN scenario_config) (Fin 30)
        = Inr (scenario_snapshot a 10)"
      by (simp add: serve_def)
    obtain r where r: "scenario a 10 t = Inr r"
      and d: "persistenceDaysLeft r = js_div (Number 900) (Number (5 * 10))"
      using scenario_eval[of a 10 t] by blast
    note c = sufficiency_comparisons_non_strict[where checkAllowanceForStorage = "serve (scenario_snapshot a 10)"
        and storageCapacity = "Fin 1024" and cfg = scenario_config and days = "Fin 30",
        OF fetch r[unfolded scenario_def]]
    have n: "rateNeeded r = 10"
      using calculateStorageMetrics_fields(1)[where checkAllowanceForStorage = "serve (scenario_snapshot a 10)"
        and storageCapacity = "Fin 1024" and cfg = scenario_config and days = "Fin 30",
        OF fetch r[unfolded scenario_def]]
      by (simp add: scenario_snapshot_def)
    have d18: "persistenceDaysLeft r = Fin 18" using d by (simp add: scenario_days_left)
    have "isRateSufficient r = (10 \<le> a)" using c n by (simp add: scenario_snapshot_def)
    moreover have "isLockupSufficient r = (of_int t \<le> (18::rat))" using c d18 by simp
    ultimately show ?thesis using r d18 by (simp add: reported_def)
  qed
  show ?thesis by (simp add: *)
qed

section \<open>Remaining days\<close>

text \<open>
  Claim C4.  For a positive required rate (and a positive number of epochs per day) the
  remaining days are the floating-point quotient of the remaining lockup by the lockup
  per day: both bigints are converted to numbers and divided.  When both are below
  \<open>2^53\<close> in magnitude the conversions are exact and the result is the exact quotient
  rounded once to the nearest number; in general, below \<open>2^1000\<close>, the result is finite
  and differs from the exact quotient by at most a relative error of \<open>2^-51\<close>.  In the
  scenario the lockup per day is 50 and the result is exactly 18.
\<close>

theorem days_left_at_required_rate:
  assumes "checkAllowanceForStorage storageCapacity (withCDN cfg) days = Inr pb"
    and "calculateStorageMetrics k cfg checkAllowanceForStorage days storageCapacity threshold = Inr r"
    and "0 < EPOCHS_PER_DAY k" and "0 < costs_perEpoch pb"
    and "remaining = currentLockupAllowance pb - currentLockupUsed pb"
    and "perDay = EPOCHS_PER_DAY k * costs_perEpoch pb"
  shows "persistenceDaysLeft r = js_div (Number remaining) (Number perDay)
       \<and> (\<bar>remaining\<bar> < 2 ^ 53 \<and> perDay < 2 ^ 53 \<longrightarrow>
            persistenceDaysLeft r = double_of_rat (of_int remaining / of_int perDay))
       \<and> (\<bar>remaining\<bar> < 2 ^ 1000 \<and> perDay < 2 ^ 1000 \<longrightarrow>
            (\<exists>q. persistenceDaysLeft r = Fin q
               \<and> \<bar>q - of_int remaining / of_int perDay\<bar>
                   \<le> \<bar>of_int remaining / of_int perDay\<bar> / 2 ^ 51))"
proof -
  have pos: "0 < perDay" using assms(3,4,6) by simp
  have eq: "persistenceDaysLeft r = js_div (Number remaining) (Number perDay)"
    using calculateStorageMetrics_fields(7)[OF assms(1,2)] assms(5,6) by simp
  have exact: "persistenceDaysLeft r = double_of_rat (of_int remaining / of_int perDay)"
    if "\<bar>remaining\<bar> < 2 ^ 53" "perDay < 2 ^ 53"
  proof -
    have "Number remaining = Fin (of_int remaining)" using that(1) by (rule Number_exact)
    moreover have "Number perDay = Fin (of_int perDay)" using that(2) pos by (intro Number_exact) simp
    ultimately show ?thesis using pos by (simp add: eq js_div_Fin_pos)
  qed
  have bound: "\<exists>q. persistenceDaysLeft r = Fin q
      \<and> \<bar>q - of_int remaining / of_int perDay\<bar> \<le> \<bar>of_int remaining / of_int perDay\<bar> / 2 ^ 51"
    if "\<bar>remaining\<bar> < 2 ^ 1000" "perDay < 2 ^ 1000"
    unfolding eq using that(1) pos that(2) by (rule js_div_Number_error)
  show ?thesis using eq exact bound by blast
qed

theorem days_left_at_required_rate_witness:
  "reported persistenceDaysLeft (scenario 10 10 10) = Some (Fin 18)
   \<and> (\<exists>q. reported persistenceDaysLeft (scenario 10 10 10) = Some (Fin q)
          \<and> \<bar>q - 18\<bar> \<le> 18 / 2 ^ 51)"
proof -
  have fetch: "serve (scenario_snapshot 10 10) (Fin 1024) (withCDN scenario_config) (Fin 30)
      = Inr (scenario_snapshot 10 10)"
    by (simp add: serve_def)
  obtain r where r: "scenario 10 10 10 = Inr r"
    using scenario_eval[of 10 10 10] by blast
  have h: "0 < EPOCHS_PER_DAY scenario_sdk" "0 < costs_perEpoch (scenario_snapshot 10 10)"
    "900 = currentLockupAllowance (scenario_snapshot 10 10)
             - currentLockupUsed (scenario_snapshot 10 10)"
    "50 = EPOCHS_PER_DAY scenario_sdk * costs_perEpoch (scenario_snapshot 10 10)"
    by (simp_all add: scenario_sdk_def scenario_snapshot_def)
  note t = days_left_at_required_rate[where checkAllowanceForStorage = "serve (scenario_snapshot 10 10)"
        and storageCapacity = "Fin 1024" and cfg = scenario_config and days = "Fin 30",
        OF fetch r[unfolded scenario_def] h]
  have "persistenceDaysLeft r = double_of_rat 18"
    using t[THEN conjunct2, THEN conjunct1] by simp
  moreover have "double_of_rat 18 = Fin 18"
    using double_of_rat_exact(1)[of 18 0] by simp
  ultimately have 1: "persistenceDaysLeft r = Fin 18" by simp
  have "\<exists>q. persistenceDaysLeft r = Fin q \<and> \<bar>q - 18\<bar> \<le> 18 / 2 ^ 51"
    using t[THEN conjunct2, THEN conjunct2] by simp
  then show ?thesis using 1 by (simp add: r reported_def)
qed

text \<open>
  Claim C2.  With a required rate of zero the calculation returns a result, but the
  remaining days at the required rate are not zero: the division by the zero lockup per
  day is not guarded, so a fresh user (nothing granted, nothing used) gets a NaN, and
  the scenario with a required rate of zero gets an infinity, which also makes the
  lockup flag true.
\<close>

theorem zero_required_rate_runway:
  "reported persistenceDaysLeft fresh_metrics = Some NaN
   \<and> reported persistenceDaysLeft (scenario 10 0 10) = Some PosInf
   \<and> reported isLockupSufficient (scenario 10 0 10) = Some True"
proof -
  obtain r where r: "fresh_metrics = Inr r" "persistenceDaysLeft r = js_div (Number 0) (Number 0)"
    using fresh_eval by blast
  obtain r' where r': "scenario 10 0 10 = Inr r'"
      "persistenceDaysLeft r' = js_div (Number 900) (Number (5 * 0))"
      "isLockupSufficient r' = ge_bigint (js_div (Number 900) (Number (5 * 0))) 10"
    using scenario_eval[of 10 0 10] by blast
  show ?thesis
    by (simp add: r r' reported_def zero_by_zero positive_by_zero)
qed

text \<open>
  For any snapshot with a required rate of zero the calculation returns, and the
  remaining days are an infinity or a NaN according to the sign of the remaining
  lockup.
\<close>

lemma days_left_at_zero_required_rate:
  assumes "checkAllowanceForStorage storageCapacity (withCDN cfg) days = Inr pb"
    and "costs_perEpoch pb = 0"
  shows "\<exists>r. calculateStorageMetrics k cfg checkAllowanceForStorage days storageCapacity threshold
             = Inr r
           \<and> persistenceDaysLeft r =
               (if 0 < currentLockupAllowance pb - currentLockupUsed pb then PosInf
                else if currentLockupAllowance pb - currentLockupUsed pb = 0 then NaN
                else NegInf)"
proof -
  obtain r where r: "calculateStorageMetrics k cfg checkAllowanceForStorage days storageCapacity
      threshold = Inr r"
    using calculateStorageMetrics_total[where checkAllowanceForStorage = checkAllowanceForStorage
        and storageCapacity = storageCapacity and cfg = cfg and days = days, OF assms(1)]
    by blast
  have "persistenceDaysLeft r =
      js_div (Number (currentLockupAllowance pb - currentLockupUsed pb)) (Number 0)"
    using calculateStorageMetrics_fields(7)[where checkAllowanceForStorage = checkAllowanceForStorage
        and storageCapacity = storageCapacity and cfg = cfg and days = days, OF assms(1) r]
      assms(2)
    by simp
  then show ?thesis using r by (simp add: js_div_Number_by_zero)
qed

text \<open>
  Claim C3.  When the current rate used is zero, the remaining days at the current rate
  are infinite if the lockup allowance exceeds the lockup used, and zero otherwise.
\<close>

theorem runway_at_zero_current_rate:
  assumes "checkAllowanceForStorage storageCapacity (withCDN cfg) days = Inr pb"
    and "calculateStorageMetrics k cfg checkAllowanceForStorage days storageCapacity threshold = Inr r"
    and "currentRateUsed pb = 0"
  shows "persistenceDaysLeftAtCurrentRate r =
           (if 0 < currentLockupAllowance pb - currentLockupUsed pb then PosInf else Fin 0)"
  using calculateStorageMetrics_fields(8)[OF assms(1,2)] assms(3) by simp

theorem runway_at_zero_current_rate_witness:
  "reported persistenceDaysLeftAtCurrentRate (scenario 10 10 10) = Some PosInf
   \<and> reported persistenceDaysLeftAtCurrentRate fresh_metrics = Some (Fin 0)"
proof -
  have fetch: "serve (scenario_snapshot 10 10) (Fin 1024) (withCDN scenario_config) (Fin 30)
      = Inr (scenario_snapshot 10 10)"
    by (simp add: serve_def)
  obtain r where r: "scenario 10 10 10 = Inr r"
    using scenario_eval[of 10 10 10] by blast
  have "persistenceDaysLeftAtCurrentRate r =
      (if 0 < currentLockupAllowance (scenario_snapshot 10 10)
              - currentLockupUsed (scenario_snapshot 10 10) then PosInf else Fin 0)"
    using runway_at_zero_current_rate[where checkAllowanceForStorage = "serve (scenario_snapshot 10 10)"
        and storageCapacity = "Fin 1024" and cfg = scenario_config and days = "Fin 30",
        OF fetch r[unfolded scenario_def]]
    by (simp add: scenario_snapshot_def)
  then have 1: "persistenceDaysLeftAtCurrentRate r = PosInf"
    by (simp add: scenario_snapshot_def)
  have fetch0: "serve fresh_snapshot (Fin 0) (withCDN scenario_config) (Fin 30) = Inr fresh_snapshot"
    by (simp add: serve_def)
  obtain r0 where r0: "fresh_metrics = Inr r0"
    using fresh_eval by blast
  have "persistenceDaysLeftAtCurrentRate r0 =
      (if 0 < currentLockupAllowance fresh_snapshot - currentLockupUsed fresh_snapshot
       then PosInf else Fin 0)"
    using runway_at_zero_current_rate[where checkAllowanceForStorage = "serve fresh_snapshot"
        and storageCapacity = "Fin 0" and cfg = scenario_config and days = "Fin 30",
        OF fetch0 r0[unfolded fresh_metrics_def]]
    by (simp add: fresh_snapshot_def)
  then have 2: "persistenceDaysLeftAtCurrentRate r0 = Fin 0"
    by (simp add: fresh_snapshot_def)
  show ?thesis by (simp add: 1 2 r r0 reported_def)
qed

section \<open>The current usage estimate\<close>

text \<open>
  Claim C8.  The estimate is zero bytes and zero GB unless the current rate used and the
  rate allowance needed are both positive.  When they are, and the capacity is an
  integer number of bytes \<open>c\<close>, the estimated bytes are the bigint quotient of
  \<open>currentRateUsed * c\<close> by \<open>rateAllowanceNeeded\<close>, which for a capacity that is not
  negative is the integer division.
\<close>

theorem current_usage_estimate:
  "(\<not> (0 < currentRateUsed pb \<and> 0 < rateAllowanceNeeded pb) \<longrightarrow>
      calculateCurrentStorageUsage k pb storageCapacity = (0, Fin 0))
   \<and> (\<forall>c. 0 < currentRateUsed pb \<and> 0 < rateAllowanceNeeded pb
            \<and> BigInt storageCapacity = Inr c \<longrightarrow>
          bigint_div (currentRateUsed pb * c) (rateAllowanceNeeded pb)
            = Inr (fst (calculateCurrentStorageUsage k pb storageCapacity))
          \<and> (0 \<le> c \<longrightarrow> fst (calculateCurrentStorageUsage k pb storageCapacity)
                          = currentRateUsed pb * c div rateAllowanceNeeded pb))"
  by (auto simp: calculateCurrentStorageUsage_def bigint_div_def sgn_if zero_le_mult_iff
      mult_less_0_iff abs_mult)

theorem current_usage_estimate_witness:
  "calculateCurrentStorageUsage scenario_sdk
      ((scenario_snapshot 10 0)\<lparr>currentRateUsed := 7\<rparr>) (Fin 1024) = (0, Fin 0)
   \<and> fst (calculateCurrentStorageUsage scenario_sdk
      ((scenario_snapshot 10 10)\<lparr>currentRateUsed := 4\<rparr>) (Fin 1024)) = 409"
  using current_usage_estimate[of "(scenario_snapshot 10 0)\<lparr>currentRateUsed := 7\<rparr>"
      scenario_sdk "Fin 1024"]
    current_usage_estimate[of "(scenario_snapshot 10 10)\<lparr>currentRateUsed := 4\<rparr>"
      scenario_sdk "Fin 1024"]
  by (simp add: scenario_snapshot_def)

section \<open>Capacity covered by a rate allowance\<close>

lemma truncated_quotient_mono:
  fixes a b c :: int
  assumes "a \<le> b" "0 < c"
  shows "sgn a * (\<bar>a\<bar> div c) \<le> sgn b * (\<bar>b\<bar> div c)"
proof -
  consider "0 \<le> a" | "a < 0" "0 \<le> b" | "b < 0" using assms(1) by linarith
  then show ?thesis
  proof cases
    case 1
    then have "0 \<le> b" using assms(1) by linarith
    have "a div c \<le> b div c" using assms by (simp add: zdiv_mono1)
    moreover have "0 \<le> a div c" using 1 assms(2) by (simp add: pos_imp_zdiv_nonneg_iff)
    ultimately show ?thesis using 1 \<open>0 \<le> b\<close> by (auto simp: sgn_if)
  next
    case 2
    have "0 \<le> \<bar>a\<bar> div c" "0 \<le> \<bar>b\<bar> div c"
      using assms(2) by (simp_all add: pos_imp_zdiv_nonneg_iff)
    then show ?thesis using 2 by (auto simp: sgn_if)
  next
    case 3
    then have "a < 0" using assms(1) by linarith
    have "(- b) div c \<le> (- a) div c" using assms by (simp add: zdiv_mono1)
    then show ?thesis using 3 \<open>a < 0\<close> by (simp add: sgn_if)
  qed
qed

text \<open>
  Claim C9.  For SDK constants that are not negative, with a positive \<open>GiB\<close> below
  \<open>2^53\<close>, the capacity in GB computed from a rate allowance never fails and is monotone:
  a larger rate allowance gives a capacity that is at least as large, in the sense of
  JavaScript's \<^verbatim>\<open><=\<close> on numbers.
\<close>

theorem capacity_from_rate_monotone:
  assumes "0 \<le> EPOCHS_PER_MONTH k" and "0 \<le> TiB k"
    and "0 < GiB k" and "GiB k < 2 ^ 53"
    and "a \<le> b"
  shows "\<exists>x y. calculateRateAllowanceGB k cfg a = Inr x
             \<and> calculateRateAllowanceGB k cfg b = Inr y \<and> js_le x y"
proof -
  define bytes where
    "bytes r = sgn (r * EPOCHS_PER_MONTH k * TiB k) *
       (\<bar>r * EPOCHS_PER_MONTH k * TiB k\<bar> div getPricePerTBPerMonth cfg)" for r
  have "a * EPOCHS_PER_MONTH k \<le> b * EPOCHS_PER_MONTH k"
    using assms(1,5) by (rule mult_right_mono[rotated])
  then have "a * EPOCHS_PER_MONTH k * TiB k \<le> b * EPOCHS_PER_MONTH k * TiB k"
    using assms(2) by (rule mult_right_mono)
  then have "bytes a \<le> bytes b"
    unfolding bytes_def by (rule truncated_quotient_mono[OF _ getPricePerTBPerMonth_pos])
  moreover have g: "Number (GiB k) = Fin (of_int (GiB k))"
    using assms(3,4) by (intro Number_exact) simp
  ultimately have "js_le (js_div (Number (bytes a)) (Number (GiB k)))
      (js_div (Number (bytes b)) (Number (GiB k)))"
    using assms(3) by (simp add: js_div_Number_mono)
  then show ?thesis
    by (simp add: calculateRateAllowanceGB_eq bytes_def)
qed

theorem capacity_from_rate_monotone_witness:
  "\<exists>x y. calculateRateAllowanceGB synapse_sdk scenario_config 1000000 = Inr x
         \<and> calculateRateAllowanceGB synapse_sdk scenario_config 2000000 = Inr y \<and> js_le x y"
  using capacity_from_rate_monotone[of synapse_sdk 1000000 2000000 scenario_config]
  by (simp add: synapse_sdk_def)

section \<open>Remediation actions\<close>

lemma withWallet_simps:
  "rateNeeded (withWallet r f u) = rateNeeded r"
  "totalLockupNeeded (withWallet r f u) = totalLockupNeeded r"
  "depositNeeded (withWallet r f u) = depositNeeded r"
  "isRateSufficient (withWallet r f u) = isRateSufficient r"
  "isLockupSufficient (withWallet r f u) = isLockupSufficient r"
  "isSufficient (withWallet r f u) = isSufficient r"
  "resultLockupAllowance (withWallet r f u) = resultLockupAllowance r"
  "filBalance (withWallet r f u) = f"
  "usdfcBalance (withWallet r f u) = u"
  by (simp_all add: withWallet_def)

text \<open>
  Claim C7.  Whatever the input, the action section renders at most one remediation
  child, so the lockup increase and the rate increase never appear together.  For
  balances whose overall flag is the conjunction of the two flags (as the calculation
  produces them), once loaded and with both wallet tokens present, it renders exactly
  one of four things according to the two flags: the sufficiency card, the lockup
  increase alone, the rate increase alone (its deposit is zero), or the combined
  deposit and allowance increase.
\<close>

theorem remediation_branches_partition:
  "length (remediation_children (ActionSection balances isLoading p)) \<le> 1
   \<and> (isSufficient b = (isRateSufficient b \<and> isLockupSufficient b)
        \<and> filBalance b \<noteq> 0 \<and> usdfcBalance b \<noteq> 0 \<longrightarrow>
      ActionSection (Some b) False p =
        (if isRateSufficient b \<and> isLockupSufficient b then SufficientCard
         else if isRateSufficient b then
           Remediation
             [LockupIncrease
                (LockupIncreaseAction (Some (totalLockupNeeded b)) (Some (depositNeeded b))
                   (Some (rateNeeded b)) p)]
         else if isLockupSufficient b then
           Remediation
             [RateIncrease
                (RateIncreaseAction (Some (resultLockupAllowance b)) (Some (rateNeeded b)) p)]
         else
           Remediation
             [DepositAndIncrease
                \<lparr>onClick = \<lparr>lockupAllowance = totalLockupNeeded b,
                                epochRateAllowance = rateNeeded b,
                                depositAmount = depositNeeded b\<rparr>,
                 disabled = p\<rparr>]))"
proof
  show "length (remediation_children (ActionSection balances isLoading p)) \<le> 1"
    by (cases balances) (simp_all add: ActionSection_def)
next
  show "isSufficient b = (isRateSufficient b \<and> isLockupSufficient b)
        \<and> filBalance b \<noteq> 0 \<and> usdfcBalance b \<noteq> 0 \<longrightarrow>
      ActionSection (Some b) False p =
        (if isRateSufficient b \<and> isLockupSufficient b then SufficientCard
         else if isRateSufficient b then
           Remediation
             [LockupIncrease
                (LockupIncreaseAction (Some (totalLockupNeeded b)) (Some (depositNeeded b))
                   (Some (rateNeeded b)) p)]
         else if isLockupSufficient b then
           Remediation
             [RateIncrease
                (RateIncreaseAction (Some (resultLockupAllowance b)) (Some (rateNeeded b)) p)]
         else
           Remediation
             [DepositAndIncrease
                \<lparr>onClick = \<lparr>lockupAllowance = totalLockupNeeded b,
                                epochRateAllowance = rateNeeded b,
                                depositAmount = depositNeeded b\<rparr>,
                 disabled = p\<rparr>])"
    by (simp add: ActionSection_def)
qed

theorem remediation_branches_partition_witness:
  "ActionSection (Some (example_balances True True 3000 2000 10 1000)) False False = SufficientCard
   \<and> ActionSection (Some (example_balances True False 3000 2000 10 1000)) False False =
       Remediation [LockupIncrease (Some \<lparr>onClick = \<lparr>lockupAllowance = 3000,
         epochRateAllowance = 10, depositAmount = 2000\<rparr>, disabled = False\<rparr>)]
   \<and> ActionSection (Some (example_balances False True 3000 2000 10 1000)) False False =
       Remediation [RateIncrease (Some \<lparr>onClick = \<lparr>lockupAllowance = 1000,
         epochRateAllowance = 10, depositAmount = 0\<rparr>, disabled = False\<rparr>)]
   \<and> ActionSection (Some (example_balances False False 3000 2000 10 1000)) False False =
       Remediation [DepositAndIncrease \<lparr>onClick = \<lparr>lockupAllowance = 3000,
         epochRateAllowance = 10, depositAmount = 2000\<rparr>, disabled = False\<rparr>]"
proof -
  have h: "isSufficient (example_balances x y 3000 2000 10 1000) =
      (isRateSufficient (example_balances x y 3000 2000 10 1000)
       \<and> isLockupSufficient (example_balances x y 3000 2000 10 1000))"
    "filBalance (example_balances x y 3000 2000 10 1000) \<noteq> 0"
    "usdfcBalance (example_balances x y 3000 2000 10 1000) \<noteq> 0" for x y
    by (simp_all add: example_balances_def)
  have t: "ActionSection (Some (example_balances x y 3000 2000 10 1000)) False False =
        (if x \<and> y then SufficientCard
         else if x then
           Remediation
             [LockupIncrease (LockupIncreaseAction (Some 3000) (Some 2000) (Some 10) False)]
         else if y then
           Remediation [RateIncrease (RateIncreaseAction (Some 1000) (Some 10) False)]
         else
           Remediation
             [DepositAndIncrease
                \<lparr>onClick = \<lparr>lockupAllowance = 3000, epochRateAllowance = 10,
                                depositAmount = 2000\<rparr>,
                 disabled = False\<rparr>])" for x y
    using remediation_branches_partition[where balances = None and isLoading = False
        and b = "example_balances x y 3000 2000 10 1000" and p = False, THEN conjunct2]
      h[of x y]
    by (simp add: example_balances_def)
  show ?thesis
    by (simp add: t LockupIncreaseAction_def RateIncreaseAction_def falsy_def)
qed

text \<open>
  Claim C10.  In an insufficient state the selected action renders nothing when one of
  its amounts is zero: the lockup increase when the total lockup needed, the deposit
  needed or the rate needed is zero, and the rate increase when the current lockup
  allowance or the rate needed is zero.
\<close>

theorem zero_amounts_suppress_action:
  assumes "\<not> isSufficient b" and "filBalance b \<noteq> 0" and "usdfcBalance b \<noteq> 0"
  shows "(isRateSufficient b \<and> \<not> isLockupSufficient b
            \<and> (totalLockupNeeded b = 0 \<or> depositNeeded b = 0 \<or> rateNeeded b = 0)
          \<longrightarrow> ActionSection (Some b) False p = Remediation [LockupIncrease None])
       \<and> (\<not> isRateSufficient b \<and> isLockupSufficient b
            \<and> (resultLockupAllowance b = 0 \<or> rateNeeded b = 0)
          \<longrightarrow> ActionSection (Some b) False p = Remediation [RateIncrease None])"
  using assms
  by (auto simp: ActionSection_def LockupIncreaseAction_def RateIncreaseAction_def falsy_def)

theorem zero_amounts_suppress_action_witness:
  "ActionSection (Some (example_balances True False 3000 0 10 1000)) False False
     = Remediation [LockupIncrease None]
   \<and> ActionSection (Some (example_balances False True 3000 2000 10 0)) False False
     = Remediation [RateIncrease None]"
proof -
  have h: "\<not> isSufficient (example_balances True False 3000 0 10 1000)"
    "filBalance (example_balances True False 3000 0 10 1000) \<noteq> 0"
    "usdfcBalance (example_balances True False 3000 0 10 1000) \<noteq> 0"
    by (simp_all add: example_balances_def)
  have h': "\<not> isSufficient (example_balances False True 3000 2000 10 0)"
    "filBalance (example_balances False True 3000 2000 10 0) \<noteq> 0"
    "usdfcBalance (example_balances False True 3000 2000 10 0) \<noteq> 0"
    by (simp_all add: example_balances_def)
  show ?thesis
    using zero_amounts_suppress_action[OF h, of False] zero_amounts_suppress_action[OF h', of False]
    by (simp add: example_balances_def)
qed

text \<open>
  Claim C6, as amended.  When the rate is sufficient and the lockup is not, the lockup
  increase submits the lockup allowance needed, the deposit needed and, as rate
  allowance, the required rate per epoch, which is at most the current rate allowance.
\<close>

theorem lockup_action_passes_required_rate:
  assumes "checkAllowanceForStorage storageCapacity (withCDN cfg) days = Inr pb"
    and "calculateStorageMetrics k cfg checkAllowanceForStorage days storageCapacity threshold = Inr r"
    and "isRateSufficient r" and "\<not> isLockupSufficient r"
    and "fil \<noteq> 0" and "usdfc \<noteq> 0"
  shows "ActionSection (Some (withWallet r fil usdfc)) False p =
       Remediation
         [LockupIncrease
            (if lockupAllowanceNeeded pb = 0 \<or> depositAmountNeeded pb = 0 \<or> costs_perEpoch pb = 0
             then None
             else Some \<lparr>onClick = \<lparr>lockupAllowance = lockupAllowanceNeeded pb,
                                     epochRateAllowance = costs_perEpoch pb,
                                     depositAmount = depositAmountNeeded pb\<rparr>,
                         disabled = p\<rparr>)]
     \<and> costs_perEpoch pb \<le> currentRateAllowance pb"
proof -
  note f = calculateStorageMetrics_fields[OF assms(1,2)]
  have "\<not> isSufficient r" using f(11) assms(4) by simp
  then show ?thesis
    using assms(3-6) f(1,5,6,9)
    by (simp add: ActionSection_def withWallet_simps LockupIncreaseAction_def falsy_def)
qed

theorem lockup_action_passes_required_rate_witness:
  "ActionSection (useBalances (scenario 20 10 20) 1 1) False False =
     Remediation [LockupIncrease (Some \<lparr>onClick = \<lparr>lockupAllowance = 3000,
       epochRateAllowance = 10, depositAmount = 2000\<rparr>, disabled = False\<rparr>)]"
proof -
  have fetch: "serve (scenario_snapshot 20 10) (Fin 1024) (withCDN scenario_config) (Fin 30)
      = Inr (scenario_snapshot 20 10)"
    by (simp add: serve_def)
  obtain r where r: "scenario 20 10 20 = Inr r"
    and f: "isRateSufficient r = ((10::int) \<le> 20)"
       "isLockupSufficient r = ge_bigint (js_div (Number 900) (Number (5 * 10))) 20"
    using scenario_eval[of 20 10 20] by blast
  have 1: "isRateSufficient r" using f(1) by simp
  have 2: "\<not> isLockupSufficient r" using f(2) by (simp add: scenario_days_left)
  show ?thesis
    using lockup_action_passes_required_rate[where checkAllowanceForStorage = "serve (scenario_snapshot 20 10)"
        and storageCapacity = "Fin 1024" and cfg = scenario_config and days = "Fin 30",
        OF fetch r[unfolded scenario_def] 1 2, of 1 1 False]
    by (simp add: r useBalances_def scenario_snapshot_def)
qed

text \<open>
  Claim C6, as stated, fails: with a current rate allowance of 20 and a required rate of
  10 the lockup increase submits a rate allowance of 10, not the current one.
\<close>

theorem lockup_action_rate_not_current_allowance:
  "ActionSection (useBalances (scenario 20 10 20) 1 1) False False =
     Remediation [LockupIncrease (Some \<lparr>onClick = \<lparr>lockupAllowance = 3000,
       epochRateAllowance = 10, depositAmount = 2000\<rparr>, disabled = False\<rparr>)]
   \<and> epochRateAllowance \<lparr>lockupAllowance = 3000, epochRateAllowance = 10, depositAmount = 2000\<rparr>
       \<noteq> currentRateAllowance (scenario_snapshot 20 10)
   \<and> reported isRateSufficient (scenario 20 10 20) = Some True
   \<and> reported isLockupSufficient (scenario 20 10 20) = Some False"
proof -
  have fetch: "serve (scenario_snapshot 20 10) (Fin 1024) (withCDN scenario_config) (Fin 30)
      = Inr (scenario_snapshot 20 10)"
    by (simp add: serve_def)
  obtain r where r: "scenario 20 10 20 = Inr r"
    and f: "isRateSufficient r = ((10::int) \<le> 20)"
       "isLockupSufficient r = ge_bigint (js_div (Number 900) (Number (5 * 10))) 20"
    using scenario_eval[of 20 10 20] by blast
  note g = calculateStorageMetrics_fields[where checkAllowanceForStorage = "serve (scenario_snapshot 20 10)"
        and storageCapacity = "Fin 1024" and cfg = scenario_config and days = "Fin 30",
        OF fetch r[unfolded scenario_def]]
  have 1: "isRateSufficient r" using f(1) by simp
  have 2: "\<not> isLockupSufficient r" using f(2) by (simp add: scenario_days_left)
  have 3: "\<not> isSufficient r" using g(11) 2 by simp
  have "ActionSection (Some (withWallet r 1 1)) False False =
     Remediation [LockupIncrease (Some \<lparr>onClick = \<lparr>lockupAllowance = 3000,
       epochRateAllowance = 10, depositAmount = 2000\<rparr>, disabled = False\<rparr>)]"
    using 1 2 3 g(1,5,6)
    by (simp add: ActionSection_def withWallet_simps LockupIncreaseAction_def falsy_def
        scenario_snapshot_def)
  then show ?thesis
    using 1 2 by (simp add: r useBalances_def reported_def scenario_snapshot_def)
qed

end
